theory Spec2Isabelle
  imports Main
begin

section \<open>XML node text and Python exceptions\<close>

text \<open>
  The three converters read a MuseScore XML tree (\<^verbatim>\<open>xml_to_midi.py\<close>) or a MIDI file
  (\<^verbatim>\<open>converter.py\<close>, \<^verbatim>\<open>advanced_mscz_converter.py\<close>). Python integers are
  unbounded, so every number is an \<^typ>\<open>int\<close>.

  Where the source calls \<^verbatim>\<open>int(node.text)\<close>, the text of the node is modelled by what
  Python makes of it: \<open>NoText\<close> is \<^verbatim>\<open>text is None\<close>, \<open>Blank\<close> is a text that
  \<^verbatim>\<open>strip()\<close> empties, \<open>IntText n\<close> is a text that \<^verbatim>\<open>int\<close> reads as \<open>n\<close>, and
  \<open>OtherText\<close> is any other text (\<^verbatim>\<open>int\<close> raises ValueError on it).
\<close>

datatype py_error = AttributeError | TypeError | ValueError

datatype node_text = NoText | Blank | IntText int | OtherText

fun py_int :: "node_text \<Rightarrow> py_error + int" where
  "py_int NoText = Inl TypeError"
| "py_int Blank = Inl ValueError"
| "py_int (IntText n) = Inr n"
| "py_int OtherText = Inl ValueError"

section \<open>The tie chain assembler: \<^verbatim>\<open>get_note_events_from_staff\<close>\<close>

text \<open>
  A \<^verbatim>\<open>Note\<close> node: its \<^verbatim>\<open>pitch\<close> child (\<open>None\<close> when there is none) and
  whether \<^verbatim>\<open>.//Spanner/prev\<close> and \<^verbatim>\<open>.//Spanner/next\<close> are found under it.
  An element of a voice: its tag, its \<^verbatim>\<open>durationType\<close> child (\<open>None\<close> when there is
  none, \<open>Some None\<close> when its text is None), whether it has a \<^verbatim>\<open>dots\<close> child, and its
  \<^verbatim>\<open>Note\<close> children.
\<close>

record note_node =
  pitch_node :: "node_text option"
  spanner_prev :: bool
  spanner_next :: bool

record element =
  el_tag :: string
  el_durationType :: "string option option"
  el_dots :: bool
  el_notes :: "note_node list"

type_synonym voice = "element list"
type_synonym measure = "voice list"
type_synonym staff = "measure list"

text \<open>The dictionaries appended to \<^verbatim>\<open>events\<close>, and the three local variables of the scan.\<close>

record event =
  ev_tick :: int
  ev_type :: string
  ev_pitch :: int

record staff_state =
  events :: "event list"
  current_tick :: int
  open_ties :: "int \<rightharpoonup> int \<times> int"

definition duration_map :: "int \<Rightarrow> (string \<times> int) list" where
  "duration_map ticks_per_quarter =
     [(''whole'', ticks_per_quarter * 4), (''half'', ticks_per_quarter * 2),
      (''quarter'', ticks_per_quarter), (''eighth'', ticks_per_quarter div 2),
      (''16th'', ticks_per_quarter div 4), (''32nd'', ticks_per_quarter div 8),
      (''64th'', ticks_per_quarter div 16), (''measure'', ticks_per_quarter * 2),
      (''black'', ticks_per_quarter), (''breve'', ticks_per_quarter * 2)]"

text \<open>\<^verbatim>\<open>duration_map.get(duration_type, 0)\<close>; a text of None is no key of the dictionary.\<close>

definition duration_get :: "int \<Rightarrow> string option \<Rightarrow> int" where
  "duration_get ticks_per_quarter duration_type =
     (case duration_type of
        None \<Rightarrow> 0
      | Some k \<Rightarrow> (case map_of (duration_map ticks_per_quarter) k of None \<Rightarrow> 0 | Some d \<Rightarrow> d))"

text \<open>
  \<^verbatim>\<open>int(base_duration * 1.5)\<close>: the product is a float and \<^verbatim>\<open>int\<close> truncates it toward
  zero. The float product is exact while the duration is below \<open>2^51\<close> in absolute value,
  which is the range this definition stands for.
\<close>

definition dotted :: "int \<Rightarrow> int" where
  "dotted b = (if 0 \<le> b then (3 * b) div 2 else - ((3 * (- b)) div 2))"

definition base_duration :: "int \<Rightarrow> string option \<Rightarrow> bool \<Rightarrow> int" where
  "base_duration ticks_per_quarter duration_type has_dots =
     (let b = duration_get ticks_per_quarter duration_type
      in if has_dots then dotted b else b)"

definition note_on :: "int \<Rightarrow> int \<Rightarrow> event" where
  "note_on t p = \<lparr>ev_tick = t, ev_type = ''note_on'', ev_pitch = p\<rparr>"

definition note_off :: "int \<Rightarrow> int \<Rightarrow> event" where
  "note_off t p = \<lparr>ev_tick = t, ev_type = ''note_off'', ev_pitch = p\<rparr>"

text \<open>The body of \<^verbatim>\<open>for note_node in element.findall('Note')\<close> (lines 91 to 109).\<close>

definition process_note :: "int \<Rightarrow> staff_state \<Rightarrow> note_node \<Rightarrow> py_error + staff_state" where
  "process_note d s n =
     (case pitch_node n of
        None \<Rightarrow> Inr s
      | Some t \<Rightarrow>
          (case py_int t of
             Inl e \<Rightarrow> Inl e
           | Inr pitch \<Rightarrow>
               Inr (if spanner_prev n then
                      (let s1 = (case open_ties s pitch of
                                   None \<Rightarrow> s
                                 | Some (start, acc) \<Rightarrow>
                                     s\<lparr>open_ties := (open_ties s)(pitch \<mapsto> (start, acc + d))\<rparr>)
                       in if \<not> spanner_next n then
                            (case open_ties s1 pitch of
                               None \<Rightarrow> s1
                             | Some (start_tick, total_duration) \<Rightarrow>
                                 s1\<lparr>open_ties := (open_ties s1)(pitch := None),
                                    events := events s1 @
                                      [note_on start_tick pitch,
                                       note_off (start_tick + total_duration) pitch]\<rparr>)
                          else s1)
                    else if spanner_next n then
                      s\<lparr>open_ties := (open_ties s)(pitch \<mapsto> (current_tick s, d))\<rparr>
                    else
                      s\<lparr>events := events s @
                           [note_on (current_tick s) pitch,
                            note_off (current_tick s + d) pitch]\<rparr>)))"

fun process_notes :: "int \<Rightarrow> staff_state \<Rightarrow> note_node list \<Rightarrow> py_error + staff_state" where
  "process_notes d s [] = Inr s"
| "process_notes d s (n # ns) =
     (case process_note d s n of Inl e \<Rightarrow> Inl e | Inr s' \<Rightarrow> process_notes d s' ns)"

text \<open>The body of \<^verbatim>\<open>for element in voice\<close> (lines 83 to 112).\<close>

definition process_element :: "int \<Rightarrow> staff_state \<Rightarrow> element \<Rightarrow> py_error + staff_state" where
  "process_element ticks_per_quarter s e =
     (case el_durationType e of
        None \<Rightarrow> Inr s
      | Some duration_type \<Rightarrow>
          (let d = base_duration ticks_per_quarter duration_type (el_dots e)
           in if el_tag e = ''Chord'' then
                (case process_notes d s (el_notes e) of
                   Inl err \<Rightarrow> Inl err
                 | Inr s' \<Rightarrow> Inr (s'\<lparr>current_tick := current_tick s' + d\<rparr>))
              else if el_tag e = ''Rest'' then Inr (s\<lparr>current_tick := current_tick s + d\<rparr>)
              else Inr s))"

fun process_voice :: "int \<Rightarrow> staff_state \<Rightarrow> voice \<Rightarrow> py_error + staff_state" where
  "process_voice tpq s [] = Inr s"
| "process_voice tpq s (e # es) =
     (case process_element tpq s e of Inl err \<Rightarrow> Inl err | Inr s' \<Rightarrow> process_voice tpq s' es)"

fun process_measure :: "int \<Rightarrow> staff_state \<Rightarrow> measure \<Rightarrow> py_error + staff_state" where
  "process_measure tpq s [] = Inr s"
| "process_measure tpq s (v # vs) =
     (case process_voice tpq s v of Inl err \<Rightarrow> Inl err | Inr s' \<Rightarrow> process_measure tpq s' vs)"

fun process_staff :: "int \<Rightarrow> staff_state \<Rightarrow> staff \<Rightarrow> py_error + staff_state" where
  "process_staff tpq s [] = Inr s"
| "process_staff tpq s (m # ms) =
     (case process_measure tpq s m of Inl err \<Rightarrow> Inl err | Inr s' \<Rightarrow> process_staff tpq s' ms)"

definition initial_state :: staff_state where
  "initial_state = \<lparr>events = [], current_tick = 0, open_ties = Map.empty\<rparr>"

text \<open>
  \<^verbatim>\<open>get_note_events_from_staff(root_node, staff_node)\<close>. Of the root only the
  \<^verbatim>\<open>Division\<close> node is read: \<open>None\<close> when \<^verbatim>\<open>find\<close> returns None (the attribute
  access then raises AttributeError).
\<close>

definition get_note_events_from_staff :: "node_text option \<Rightarrow> staff \<Rightarrow> py_error + event list" where
  "get_note_events_from_staff division_node staff_node =
     (case division_node of
        None \<Rightarrow> Inl AttributeError
      | Some t \<Rightarrow>
          (case py_int t of
             Inl e \<Rightarrow> Inl e
           | Inr division \<Rightarrow>
               (case process_staff division initial_state staff_node of
                  Inl e \<Rightarrow> Inl e
                | Inr s \<Rightarrow> Inr (events s))))"


subsection \<open>Tie chains, as the voices of a staff hold them\<close>

text \<open>
  The vocabulary of the statements about tie chains. For a pitch \<open>p\<close>, a note is
  \<^emph>\<open>other\<close> when it has no pitch node or a pitch that reads as an integer different from
  \<open>p\<close>. An element is \<^emph>\<open>foreign\<close> to \<open>p\<close> when the scan reads no note of pitch \<open>p\<close> in it:
  it has no duration type, it is no chord, or all its notes are other. A \<^emph>\<open>link\<close> is a
  chord with a duration type and exactly one note of pitch \<open>p\<close>, whose two tie markers are
  the given ones.
\<close>

definition other_pitch :: "int \<Rightarrow> note_node \<Rightarrow> bool" where
  "other_pitch p n =
     (case pitch_node n of None \<Rightarrow> True | Some (IntText q) \<Rightarrow> q \<noteq> p | Some _ \<Rightarrow> False)"

fun link_notes :: "int \<Rightarrow> bool \<Rightarrow> bool \<Rightarrow> note_node list \<Rightarrow> bool" where
  "link_notes p a b [] = False"
| "link_notes p a b (n # ns) =
     (if pitch_node n = Some (IntText p)
      then spanner_prev n = a \<and> spanner_next n = b \<and> list_all (other_pitch p) ns
      else other_pitch p n \<and> link_notes p a b ns)"

definition foreign :: "int \<Rightarrow> element \<Rightarrow> bool" where
  "foreign p e =
     (el_durationType e = None \<or> el_tag e \<noteq> ''Chord'' \<or> list_all (other_pitch p) (el_notes e))"

definition link :: "int \<Rightarrow> bool \<Rightarrow> bool \<Rightarrow> element \<Rightarrow> bool" where
  "link p a b e =
     (el_durationType e \<noteq> None \<and> el_tag e = ''Chord'' \<and> link_notes p a b (el_notes e))"

text \<open>The resolved duration of an element: what the scan computes as \<^verbatim>\<open>base_duration\<close>.\<close>

definition el_duration :: "int \<Rightarrow> element \<Rightarrow> int" where
  "el_duration tpq e =
     (case el_durationType e of None \<Rightarrow> 0 | Some dt \<Rightarrow> base_duration tpq dt (el_dots e))"

text \<open>
  A tie chain of pitch \<open>p\<close> is a run of elements in scan order: a first link that is not
  tied from the previous note, then links tied on both sides, then a last link that is not
  tied to the next note, with elements foreign to \<open>p\<close> anywhere in between. A chain of one
  link is a note with no tie marker. The segments of the chain are its links.
\<close>

fun chain_tail :: "int \<Rightarrow> element list \<Rightarrow> bool" where
  "chain_tail p [] = False"
| "chain_tail p (e # es) =
     (if foreign p e then chain_tail p es
      else if es = [] then link p True False e
      else link p True True e \<and> chain_tail p es)"

definition tie_chain :: "int \<Rightarrow> element list \<Rightarrow> bool" where
  "tie_chain p es =
     (case es of
        [] \<Rightarrow> False
      | e # es' \<Rightarrow> (if es' = [] then link p False False e
                   else link p False True e \<and> chain_tail p es'))"

definition segment_durations :: "int \<Rightarrow> int \<Rightarrow> element list \<Rightarrow> int list" where
  "segment_durations tpq p es = map (el_duration tpq) (filter (\<lambda>e. \<not> foreign p e) es)"

text \<open>
  An element is \<^emph>\<open>readable\<close> when the scan of it raises nothing: it has no duration
  type, it is no chord, or the pitch text of each of its notes that has a pitch node reads
  as an integer.
\<close>

definition readable :: "element \<Rightarrow> bool" where
  "readable e =
     (el_durationType e = None \<or> el_tag e \<noteq> ''Chord''
      \<or> list_all (\<lambda>n. case pitch_node n of
                          None \<Rightarrow> True | Some (IntText q) \<Rightarrow> True | Some _ \<Rightarrow> False)
            (el_notes e))"

text \<open>A chord of one note, for the examples.\<close>

definition tied :: "int \<Rightarrow> string \<Rightarrow> bool \<Rightarrow> bool \<Rightarrow> element" where
  "tied p dt a b =
     \<lparr>el_tag = ''Chord'', el_durationType = Some (Some dt), el_dots = False,
      el_notes = [\<lparr>pitch_node = Some (IntText p), spanner_prev = a, spanner_next = b\<rparr>]\<rparr>"

text \<open>
  A staff of two measures: a quarter note of pitch 64, then a half note of pitch 60 tied
  over the barline to a quarter note, then a quarter note of pitch 67.
\<close>

definition staff_with_tie_over_barline :: staff where
  "staff_with_tie_over_barline =
     [[[tied 64 ''quarter'' False False, tied 60 ''half'' False True]],
      [[tied 60 ''quarter'' True False, tied 67 ''quarter'' False False]]]"

definition plain_note :: "int \<Rightarrow> bool \<Rightarrow> bool \<Rightarrow> note_node" where
  "plain_note p a b = \<lparr>pitch_node = Some (IntText p), spanner_prev = a, spanner_next = b\<rparr>"

text \<open>
  A quarter-note chord of three notes; the middle one is marked as tied from a previous
  note and closes its chain.
\<close>

definition chord_with_dangling_tie :: element where
  "chord_with_dangling_tie =
     \<lparr>el_tag = ''Chord'', el_durationType = Some (Some ''quarter''), el_dots = False,
      el_notes = [plain_note 64 False False, plain_note 60 True False,
                  plain_note 67 False False]\<rparr>"

text \<open>
  The state \<open>s'\<close> has the events of \<open>s\<close> followed by new ones, and the new events of
  pitch \<open>p\<close> are \<open>X\<close>.
\<close>

definition adds :: "int \<Rightarrow> staff_state \<Rightarrow> staff_state \<Rightarrow> event list \<Rightarrow> bool" where
  "adds p s s' X = (\<exists>new. events s' = events s @ new \<and> filter (\<lambda>x. ev_pitch x = p) new = X)"

text \<open>What the note of pitch \<open>p\<close> in a link does to the state, by its two markers.\<close>

definition link_effect :: "int \<Rightarrow> int \<Rightarrow> bool \<Rightarrow> bool \<Rightarrow> staff_state \<Rightarrow> staff_state" where
  "link_effect d p a b s =
     (if a then
        (case open_ties s p of
           None \<Rightarrow> s
         | Some (start, acc) \<Rightarrow>
             (if b then s\<lparr>open_ties := (open_ties s)(p \<mapsto> (start, acc + d))\<rparr>
              else s\<lparr>open_ties := (open_ties s)(p := None),
                     events := events s @ [note_on start p, note_off (start + (acc + d)) p]\<rparr>))
      else if b then s\<lparr>open_ties := (open_ties s)(p \<mapsto> (current_tick s, d))\<rparr>
      else s\<lparr>events := events s @ [note_on (current_tick s) p, note_off (current_tick s + d) p]\<rparr>)"

section \<open>The key signature resolver: \<^verbatim>\<open>_get_key_signature\<close>\<close>

text \<open>
  A \<^verbatim>\<open>KeySig\<close> node: its \<^verbatim>\<open>accidental\<close> child (\<open>None\<close> when there is none) and the
  text of its \<^verbatim>\<open>mode\<close> child (\<open>None\<close> when there is no such child, \<open>Some None\<close> when its
  text is None).
\<close>

record keysig_node =
  ks_accidental :: "node_text option"
  ks_mode :: "string option option"

definition SHARPS_TO_MAJOR :: "(int \<times> string) list" where
  "SHARPS_TO_MAJOR =
     [(0, ''C''), (1, ''G''), (2, ''D''), (3, ''A''), (4, ''E''), (5, ''B''), (6, ''F#''),
      (7, ''C#''), (-1, ''F''), (-2, ''Bb''), (-3, ''Eb''), (-4, ''Ab''), (-5, ''Db''),
      (-6, ''Gb''), (-7, ''Cb'')]"

definition SHARPS_TO_MINOR :: "(int \<times> string) list" where
  "SHARPS_TO_MINOR =
     [(0, ''Am''), (1, ''Em''), (2, ''Bm''), (3, ''F#m''), (4, ''C#m''), (5, ''G#m''),
      (6, ''D#m''), (7, ''A#m''), (-1, ''Dm''), (-2, ''Gm''), (-3, ''Cm''), (-4, ''Fm''),
      (-5, ''Bbm''), (-6, ''Ebm''), (-7, ''Abm'')]"

text \<open>
  Lines 46 to 50: the mode defaults to \<^verbatim>\<open>'major'\<close> when there is no mode node, and the
  table is read with \<^verbatim>\<open>key_map.get(fifths, 'C')\<close>.
\<close>

definition key_name :: "int \<Rightarrow> string option option \<Rightarrow> string" where
  "key_name fifths mode_node =
     (let mode = (case mode_node of None \<Rightarrow> Some ''major'' | Some txt \<Rightarrow> txt);
          key_map = (if mode = Some ''minor'' then SHARPS_TO_MINOR else SHARPS_TO_MAJOR)
      in case map_of key_map fifths of None \<Rightarrow> ''C'' | Some k \<Rightarrow> k)"

text \<open>
  The loop over all \<^verbatim>\<open>KeySig\<close> nodes, inside the \<^verbatim>\<open>try\<close>. A node with no accidental
  child or with a text of None takes the \<^verbatim>\<open>else\<close> branch, a blank text fails the test
  \<^verbatim>\<open>if fifths_text\<close>; in both cases the loop goes on. Any other text goes to \<^verbatim>\<open>int\<close>,
  and the function returns, or \<^verbatim>\<open>int\<close> raises.
\<close>

fun scan_key_sigs :: "keysig_node list \<Rightarrow> py_error + string" where
  "scan_key_sigs [] = Inr ''C''"
| "scan_key_sigs (ks_node # rest) =
     (case ks_accidental ks_node of
        None \<Rightarrow> scan_key_sigs rest
      | Some NoText \<Rightarrow> scan_key_sigs rest
      | Some Blank \<Rightarrow> scan_key_sigs rest
      | Some t \<Rightarrow>
          (case py_int t of
             Inl e \<Rightarrow> Inl e
           | Inr fifths \<Rightarrow> Inr (key_name fifths (ks_mode ks_node))))"

text \<open>\<^verbatim>\<open>except Exception\<close> returns \<^verbatim>\<open>'C'\<close>.\<close>

definition get_key_signature :: "keysig_node list \<Rightarrow> string" where
  "get_key_signature all_key_sigs =
     (case scan_key_sigs all_key_sigs of Inl e \<Rightarrow> ''C'' | Inr result_key \<Rightarrow> result_key)"

text \<open>
  The vocabulary of the statements: a declaration is skipped when its accidental field is
  absent or blank; its count is parseable when the field reads as an integer.
\<close>

definition skipped :: "keysig_node \<Rightarrow> bool" where
  "skipped k =
     (case ks_accidental k of
        None \<Rightarrow> True | Some NoText \<Rightarrow> True | Some Blank \<Rightarrow> True | Some _ \<Rightarrow> False)"

definition parseable :: "keysig_node \<Rightarrow> bool" where
  "parseable k = (case ks_accidental k of Some (IntText n) \<Rightarrow> True | _ \<Rightarrow> False)"

definition count_of :: "keysig_node \<Rightarrow> int" where
  "count_of k = (case ks_accidental k of Some (IntText n) \<Rightarrow> n | _ \<Rightarrow> 0)"

text \<open>
  A declaration whose count does not parse, or parses to a number outside \<open>-7..7\<close>.
\<close>

definition invalid_count :: "keysig_node \<Rightarrow> bool" where
  "invalid_count k =
     (case ks_accidental k of
        Some OtherText \<Rightarrow> True
      | Some (IntText n) \<Rightarrow> n < -7 \<or> 7 < n
      | _ \<Rightarrow> False)"

text \<open>
  The resolver as the specification words it: the key name of the first declaration with a
  present, parseable accidental count, and \<open>C\<close> when there is none.
\<close>

definition resolve_key_spec :: "keysig_node list \<Rightarrow> string" where
  "resolve_key_spec kss =
     (case filter parseable kss of
        [] \<Rightarrow> ''C''
      | k # _ \<Rightarrow> key_name (count_of k) (ks_mode k))"

text \<open>
  The scan as the specification words it for a declaration that is out of range or does
  not parse: that declaration gives \<open>C\<close> and the scan goes on, so that a later declaration
  with a count in range decides the result.
\<close>

fun resolve_key_continuing :: "keysig_node list \<Rightarrow> string" where
  "resolve_key_continuing [] = ''C''"
| "resolve_key_continuing (k # rest) =
     (if skipped k \<or> invalid_count k then resolve_key_continuing rest
      else key_name (count_of k) (ks_mode k))"

section \<open>The hand-split heuristic: \<^verbatim>\<open>_calculate_optimal_split\<close>\<close>

text \<open>
  The histogram loop over a \<^verbatim>\<open>defaultdict(int)\<close>, and the later reads
  \<^verbatim>\<open>note_counts.get(note, 0)\<close>.
\<close>

fun count_notes :: "int list \<Rightarrow> (int \<rightharpoonup> int) \<Rightarrow> (int \<rightharpoonup> int)" where
  "count_notes [] note_counts = note_counts"
| "count_notes (n # ns) note_counts =
     count_notes ns (note_counts(n \<mapsto> (case note_counts n of None \<Rightarrow> 0 | Some c \<Rightarrow> c) + 1))"

definition counts_get :: "(int \<rightharpoonup> int) \<Rightarrow> int \<Rightarrow> int" where
  "counts_get note_counts n = (case note_counts n of None \<Rightarrow> 0 | Some c \<Rightarrow> c)"

text \<open>The inner loop over \<^verbatim>\<open>range(split_candidate - 2, split_candidate + 3)\<close>.\<close>

definition density :: "(int \<rightharpoonup> int) \<Rightarrow> int \<Rightarrow> int" where
  "density note_counts split_candidate =
     fold (\<lambda>n d. d + counts_get note_counts n) [split_candidate - 2 .. split_candidate + 2] 0"

text \<open>
  The outer loop over the candidates, on the pair of \<^verbatim>\<open>best_split\<close> and
  \<^verbatim>\<open>min_density\<close>; \<open>None\<close> is the initial \<^verbatim>\<open>float('inf')\<close>, above every density.
\<close>

fun search :: "(int \<rightharpoonup> int) \<Rightarrow> int list \<Rightarrow> int \<times> int option \<Rightarrow> int \<times> int option" where
  "search note_counts [] st = st"
| "search note_counts (split_candidate # cs) (best_split, min_density) =
     (let d = density note_counts split_candidate
      in if (case min_density of None \<Rightarrow> True | Some m \<Rightarrow> d < m)
         then search note_counts cs (split_candidate, Some d)
         else search note_counts cs (best_split, min_density))"

definition calculate_optimal_split :: "int list \<Rightarrow> int" where
  "calculate_optimal_split all_notes =
     (case all_notes of
        [] \<Rightarrow> 60
      | n # ns \<Rightarrow>
          (let note_counts = count_notes all_notes Map.empty;
               min_note = fold min ns n;
               max_note = fold max ns n;
               search_start = max 48 min_note;
               search_end = min 72 max_note
           in fst (search note_counts [search_start .. search_end] (60, None))))"

text \<open>
  The vocabulary of the statements: the local density of a candidate as the specification
  words it, the sum over the five pitches around it of the number of times each occurs.
\<close>

definition local_density :: "int list \<Rightarrow> int \<Rightarrow> int" where
  "local_density all_notes p = (\<Sum>q \<leftarrow> [p - 2 .. p + 2]. int (count_list all_notes q))"

definition lowest_note :: "int list \<Rightarrow> int" where
  "lowest_note all_notes = Min (set all_notes)"

definition highest_note :: "int list \<Rightarrow> int" where
  "highest_note all_notes = Max (set all_notes)"

section \<open>The analysis of a MIDI file: \<^verbatim>\<open>_analyze_track_structure\<close>\<close>

text \<open>
  A mido message, with the attributes the converters read or write. \<open>m_text\<close> is the
  \<^verbatim>\<open>name\<close> of a track name and the \<^verbatim>\<open>key\<close> of a key signature. An attribute that
  a message type does not have is never read for a message of that type.
\<close>

record midi_msg =
  m_type :: string
  m_is_meta :: bool
  m_channel :: int
  m_note :: int
  m_velocity :: int
  m_time :: int
  m_program :: int
  m_text :: string

record analysis =
  needs_separation :: bool
  total_tracks :: int
  musical_tracks :: int
  channels_used :: "int set"
  dist_low :: int
  dist_high :: int
  split_point :: int

text \<open>
  The body of \<^verbatim>\<open>for msg in track\<close>, on the analysis, the list \<^verbatim>\<open>all_notes\<close> and
  the flag \<^verbatim>\<open>has_notes\<close>. (The set \<^verbatim>\<open>track_channels\<close> is written and never read.)
\<close>

definition analyze_msg :: "midi_msg \<Rightarrow> (analysis \<times> int list) \<times> bool \<Rightarrow> (analysis \<times> int list) \<times> bool" where
  "analyze_msg msg st =
     (case st of ((a, all_notes), has_notes) \<Rightarrow>
        if m_type msg = ''note_on'' \<and> m_velocity msg > 0 then
          ((if m_note msg < 60
            then a\<lparr>channels_used := insert (m_channel msg) (channels_used a),
                   dist_low := dist_low a + 1\<rparr>
            else a\<lparr>channels_used := insert (m_channel msg) (channels_used a),
                   dist_high := dist_high a + 1\<rparr>,
            all_notes @ [m_note msg]), True)
        else st)"

definition analyze_track :: "midi_msg list \<Rightarrow> analysis \<times> int list \<Rightarrow> analysis \<times> int list" where
  "analyze_track track st =
     (case fold analyze_msg track (st, False) of
        ((a, all_notes), has_notes) \<Rightarrow>
          (if has_notes then a\<lparr>musical_tracks := musical_tracks a + 1\<rparr> else a, all_notes))"

definition initial_analysis :: "midi_msg list list \<Rightarrow> analysis" where
  "initial_analysis tracks =
     \<lparr>needs_separation = False, total_tracks = int (length tracks), musical_tracks = 0,
      channels_used = {}, dist_low = 0, dist_high = 0, split_point = 60\<rparr>"

definition analyze_track_structure :: "midi_msg list list \<Rightarrow> analysis" where
  "analyze_track_structure tracks =
     (case fold analyze_track tracks (initial_analysis tracks, []) of
        (a, all_notes) \<Rightarrow>
          if int (card (channels_used a)) \<le> 1 \<and> dist_low a > 5 \<and> dist_high a > 5
          then a\<lparr>needs_separation := True, split_point := calculate_optimal_split all_notes\<rparr>
          else a)"

text \<open>
  The vocabulary of the statements: the sounding notes of a file are its messages of type
  \<^verbatim>\<open>note_on\<close> with a velocity above 0, in the order of the tracks.
\<close>

definition sounding :: "midi_msg list list \<Rightarrow> midi_msg list" where
  "sounding tracks =
     filter (\<lambda>msg. m_type msg = ''note_on'' \<and> m_velocity msg > 0) (concat tracks)"


text \<open>A sounding note, for the examples.\<close>

definition on_msg :: "int \<Rightarrow> int \<Rightarrow> midi_msg" where
  "on_msg ch n =
     \<lparr>m_type = ''note_on'', m_is_meta = False, m_channel = ch, m_note = n, m_velocity = 80,
      m_time = 0, m_program = 0, m_text = []\<rparr>"

section \<open>The track assembler\<close>

text \<open>
  The messages the converters build. mido is taken to accept them: its own check of the
  data bytes (a note outside \<open>0..127\<close> is refused there) is not part of the model.
\<close>

definition track_name :: "string \<Rightarrow> midi_msg" where
  "track_name name =
     \<lparr>m_type = ''track_name'', m_is_meta = True, m_channel = 0, m_note = 0, m_velocity = 0,
      m_time = 0, m_program = 0, m_text = name\<rparr>"

definition key_signature :: "string \<Rightarrow> midi_msg" where
  "key_signature key =
     \<lparr>m_type = ''key_signature'', m_is_meta = True, m_channel = 0, m_note = 0, m_velocity = 0,
      m_time = 0, m_program = 0, m_text = key\<rparr>"

definition program_change :: "int \<Rightarrow> midi_msg" where
  "program_change channel =
     \<lparr>m_type = ''program_change'', m_is_meta = False, m_channel = channel, m_note = 0,
      m_velocity = 0, m_time = 0, m_program = 0, m_text = []\<rparr>"

definition note_message :: "string \<Rightarrow> int \<Rightarrow> int \<Rightarrow> int \<Rightarrow> int \<Rightarrow> midi_msg" where
  "note_message ty note velocity delta_time channel =
     \<lparr>m_type = ty, m_is_meta = False, m_channel = channel, m_note = note,
      m_velocity = velocity, m_time = delta_time, m_program = 0, m_text = []\<rparr>"

subsection \<open>From two staves: \<^verbatim>\<open>DirectXMLtoMIDIConverter.convert\<close>, lines 145 to 168\<close>

text \<open>An event dictionary once the key \<^verbatim>\<open>channel\<close> has been set on it.\<close>

record ch_event = event +
  ev_channel :: int

definition with_channel :: "int \<Rightarrow> event \<Rightarrow> ch_event" where
  "with_channel c e =
     \<lparr>ev_tick = ev_tick e, ev_type = ev_type e, ev_pitch = ev_pitch e, ev_channel = c\<rparr>"

text \<open>
  The body of \<^verbatim>\<open>for event in all_midi_events\<close>, on the two tracks and the two
  cursors \<^verbatim>\<open>last_tick_right\<close> and \<^verbatim>\<open>last_tick_left\<close>.
\<close>

definition emit_event ::
  "ch_event \<Rightarrow> midi_msg list \<times> midi_msg list \<times> int \<times> int
     \<Rightarrow> midi_msg list \<times> midi_msg list \<times> int \<times> int" where
  "emit_event ev st =
     (case st of (right_track, left_track, last_tick_right, last_tick_left) \<Rightarrow>
        (let velocity = (if ev_type ev = ''note_on'' then 90 else 0)
         in if ev_channel ev = 0 then
              (right_track @
                 [note_message (ev_type ev) (ev_pitch ev) velocity
                    (ev_tick ev - last_tick_right) 0],
               left_track, ev_tick ev, last_tick_left)
            else
              (right_track,
               left_track @
                 [note_message (ev_type ev) (ev_pitch ev) velocity
                    (ev_tick ev - last_tick_left) 1],
               last_tick_right, ev_tick ev)))"

text \<open>
  The merged stream: the events of the right hand on channel 0, then those of the left
  hand on channel 1, sorted by tick. \<^verbatim>\<open>list.sort\<close> is stable, as \<open>sort_key\<close> is.
\<close>

definition merged_events :: "event list \<Rightarrow> event list \<Rightarrow> ch_event list" where
  "merged_events right_hand_events left_hand_events =
     sort_key ev_tick
       (map (with_channel 0) right_hand_events @ map (with_channel 1) left_hand_events)"

definition assemble_tracks ::
  "string \<Rightarrow> event list \<Rightarrow> event list \<Rightarrow> midi_msg list \<times> midi_msg list" where
  "assemble_tracks key_signature_name right_hand_events left_hand_events =
     (case fold emit_event (merged_events right_hand_events left_hand_events)
             ([track_name ''Mano Derecha'', key_signature key_signature_name, program_change 0],
              [track_name ''Mano Izquierda'', key_signature key_signature_name, program_change 1],
              0, 0) of
        (right_track, left_track, last_tick_right, last_tick_left) \<Rightarrow>
          (right_track, left_track))"

subsection \<open>From one undivided file: \<^verbatim>\<open>_create_separated_midi\<close>, lines 481 to 548\<close>

text \<open>
  The messages of one track with their absolute times, \<^verbatim>\<open>track_time\<close> being the
  running sum of the delta times; only the four musical types are kept.
\<close>

fun abs_events :: "int \<Rightarrow> midi_msg list \<Rightarrow> (int \<times> midi_msg) list" where
  "abs_events track_time [] = []"
| "abs_events track_time (msg # msgs) =
     (let t = track_time + m_time msg
      in (if m_type msg \<in> set [''note_on'', ''note_off'', ''control_change'', ''program_change'']
          then [(t, msg)] else [])
         @ abs_events t msgs)"

definition combined_events :: "midi_msg list list \<Rightarrow> (int \<times> midi_msg) list" where
  "combined_events original_tracks = sort_key fst (concat (map (abs_events 0) original_tracks))"

text \<open>
  The body of \<^verbatim>\<open>for abs_time, msg in combined_events\<close>, on the two tracks and the two
  cursors \<^verbatim>\<open>right_last_time\<close> and \<^verbatim>\<open>left_last_time\<close>.
\<close>

definition separate_event ::
  "int \<Rightarrow> int \<times> midi_msg \<Rightarrow> midi_msg list \<times> midi_msg list \<times> int \<times> int
     \<Rightarrow> midi_msg list \<times> midi_msg list \<times> int \<times> int" where
  "separate_event the_split_point ev st =
     (case (ev, st) of
        ((abs_time, msg), (right_hand_track, left_hand_track, right_last_time, left_last_time)) \<Rightarrow>
          if m_type msg \<in> set [''note_on'', ''note_off''] then
            (if m_note msg \<ge> the_split_point then
               (right_hand_track @ [msg\<lparr>m_channel := 0, m_time := abs_time - right_last_time\<rparr>],
                left_hand_track, abs_time, left_last_time)
             else
               (right_hand_track,
                left_hand_track @ [msg\<lparr>m_channel := 1, m_time := abs_time - left_last_time\<rparr>],
                right_last_time, abs_time))
          else if m_type msg \<in> set [''control_change'', ''program_change''] then
            (right_hand_track @ [msg\<lparr>m_channel := 0, m_time := abs_time - right_last_time\<rparr>],
             left_hand_track @ [msg\<lparr>m_channel := 1, m_time := abs_time - left_last_time\<rparr>],
             abs_time, abs_time)
          else st)"

text \<open>
  The two hand tracks of the new file. Its track 0, which \<^verbatim>\<open>_add_metadata_track\<close>
  fills from the metadata alone, is not modelled.
\<close>

definition create_separated_midi ::
  "midi_msg list list \<Rightarrow> int \<Rightarrow> midi_msg list \<times> midi_msg list" where
  "create_separated_midi original_tracks the_split_point =
     (case fold (separate_event the_split_point) (combined_events original_tracks)
             ([track_name ''Mano Derecha'', program_change 0],
              [track_name ''Mano Izquierda'', program_change 1], 0, 0) of
        (right_hand_track, left_hand_track, right_last_time, left_last_time) \<Rightarrow>
          (right_hand_track, left_hand_track))"

text \<open>
  The vocabulary of the statements. The absolute tick of every message of a track is the
  sum of the delta times up to it; the deltas of a list of ticks against a cursor are the
  differences of each tick to the one before. An event of the merged stream of
  \<^verbatim>\<open>_create_separated_midi\<close> goes to the right hand when it is a note at or above the
  split point or a control or program change, to the left hand when it is a note below the
  split point or a control or program change.
\<close>

fun running_sums :: "int \<Rightarrow> int list \<Rightarrow> int list" where
  "running_sums acc [] = []"
| "running_sums acc (d # ds) = (acc + d) # running_sums (acc + d) ds"

definition abs_ticks :: "midi_msg list \<Rightarrow> int list" where
  "abs_ticks track = running_sums 0 (map m_time track)"

fun deltas :: "int \<Rightarrow> int list \<Rightarrow> int list" where
  "deltas last_tick [] = []"
| "deltas last_tick (t # ts) = (t - last_tick) # deltas t ts"

definition to_right :: "int \<Rightarrow> int \<times> midi_msg \<Rightarrow> bool" where
  "to_right the_split_point ev =
     (if m_type (snd ev) \<in> set [''note_on'', ''note_off'']
      then m_note (snd ev) \<ge> the_split_point
      else m_type (snd ev) \<in> set [''control_change'', ''program_change''])"

definition to_left :: "int \<Rightarrow> int \<times> midi_msg \<Rightarrow> bool" where
  "to_left the_split_point ev =
     (if m_type (snd ev) \<in> set [''note_on'', ''note_off'']
      then m_note (snd ev) < the_split_point
      else m_type (snd ev) \<in> set [''control_change'', ''program_change''])"

section \<open>The two conversions and their failure on fewer than two sources\<close>

text \<open>
  What \<^verbatim>\<open>DirectXMLtoMIDIConverter.convert\<close> reads of the parsed score: the
  \<^verbatim>\<open>Division\<close> node, the \<^verbatim>\<open>Staff\<close> nodes under \<^verbatim>\<open>Score\<close> and the
  \<^verbatim>\<open>KeySig\<close> nodes. A MIDI file is its resolution and its tracks.
\<close>

record score_root =
  root_division :: "node_text option"
  root_staves :: "staff list"
  root_key_sigs :: "keysig_node list"

record midi_file =
  mf_ticks_per_beat :: int
  mf_tracks :: "midi_msg list list"

text \<open>
  \<^verbatim>\<open>DirectXMLtoMIDIConverter.convert\<close>. The argument is the parsed score, and \<open>None\<close>
  when the archive could not be read or parsed or holds no \<^verbatim>\<open>.mscx\<close> file. The result
  is what the call returns or raises, and the file it saved, if any. Of the exceptions of
  \<^verbatim>\<open>int(root.find('.//Division').text)\<close> only AttributeError and TypeError are
  caught.
\<close>

definition direct_xml_convert :: "score_root option \<Rightarrow> (py_error + bool) \<times> midi_file option" where
  "direct_xml_convert parsed =
     (case parsed of
        None \<Rightarrow> (Inr False, None)
      | Some root \<Rightarrow>
          (case root_division root of
             None \<Rightarrow> (Inr False, None)
           | Some t \<Rightarrow>
               (case py_int t of
                  Inl AttributeError \<Rightarrow> (Inr False, None)
                | Inl TypeError \<Rightarrow> (Inr False, None)
                | Inl ValueError \<Rightarrow> (Inl ValueError, None)
                | Inr ticks_per_beat \<Rightarrow>
                    (let all_staves = root_staves root
                     in if length all_staves < 2 then (Inr False, None)
                        else
                          (let key_signature_name = get_key_signature (root_key_sigs root)
                           in case get_note_events_from_staff (root_division root) (all_staves ! 0) of
                                Inl e \<Rightarrow> (Inl e, None)
                              | Inr right_hand_events \<Rightarrow>
                                  (case get_note_events_from_staff (root_division root)
                                          (all_staves ! 1) of
                                     Inl e \<Rightarrow> (Inl e, None)
                                   | Inr left_hand_events \<Rightarrow>
                                       (case assemble_tracks key_signature_name
                                               right_hand_events left_hand_events of
                                          (right_track, left_track) \<Rightarrow>
                                            (Inr True,
                                             Some \<lparr>mf_ticks_per_beat = ticks_per_beat,
                                                   mf_tracks = [right_track, left_track]\<rparr>))))))))"

text \<open>
  \<^verbatim>\<open>YamahaCSPConverter.convert\<close>. \<open>rendered\<close> tells whether the temporary directory
  was made and MuseScore wrote the intermediate file; \<open>source_mid\<close> is that file as mido
  reads it, \<open>None\<close> when mido raises. \<open>copy_msg msg c\<close> stands for mido's
  \<^verbatim>\<open>msg.copy(channel=c)\<close>, \<open>None\<close> when it raises. Every exception is caught and
  makes the call return False. The removal of the temporary directory in the
  \<^verbatim>\<open>finally\<close> clause is taken to succeed.
\<close>

definition note_tracks_of :: "midi_msg list list \<Rightarrow> midi_msg list list" where
  "note_tracks_of source_tracks =
     filter (\<lambda>track. list_ex (\<lambda>msg. take 4 (m_type msg) = ''note'') track) source_tracks"

fun copy_track ::
  "(midi_msg \<Rightarrow> int \<Rightarrow> midi_msg option) \<Rightarrow> int \<Rightarrow> midi_msg list \<Rightarrow> midi_msg list option" where
  "copy_track copy_msg c [] = Some []"
| "copy_track copy_msg c (msg # msgs) =
     (if \<not> m_is_meta msg then
        (case copy_msg msg c of
           None \<Rightarrow> None
         | Some m \<Rightarrow> map_option ((#) m) (copy_track copy_msg c msgs))
      else map_option ((#) msg) (copy_track copy_msg c msgs))"

definition yamaha_csp_convert ::
  "(midi_msg \<Rightarrow> int \<Rightarrow> midi_msg option) \<Rightarrow> bool \<Rightarrow> midi_file option \<Rightarrow> bool \<times> midi_file option" where
  "yamaha_csp_convert copy_msg rendered source_mid =
     (if \<not> rendered then (False, None)
      else
        (case source_mid of
           None \<Rightarrow> (False, None)
         | Some mid \<Rightarrow>
             (let note_tracks = note_tracks_of (mf_tracks mid)
              in if length note_tracks < 2 then (False, None)
                 else
                   (case copy_track copy_msg 0 (note_tracks ! 0) of
                      None \<Rightarrow> (False, None)
                    | Some rh \<Rightarrow>
                        (case copy_track copy_msg 1 (note_tracks ! 1) of
                           None \<Rightarrow> (False, None)
                         | Some lh \<Rightarrow>
                             (True,
                              Some \<lparr>mf_ticks_per_beat = mf_ticks_per_beat mid,
                                    mf_tracks =
                                      [[track_name ''Mano Derecha'', program_change 0] @ rh,
                                       [track_name ''Mano Izquierda'', program_change 1] @ lh]\<rparr>))))))"

text \<open>
  The division node makes \<^verbatim>\<open>convert\<close> raise when it has a text that is no integer:
  the ValueError of \<^verbatim>\<open>int\<close> is not among the exceptions caught there.
\<close>

definition division_raises :: "score_root \<Rightarrow> bool" where
  "division_raises root =
     (case root_division root of
        Some Blank \<Rightarrow> True | Some OtherText \<Rightarrow> True | _ \<Rightarrow> False)"

text \<open>A score of one staff and a file with one track of notes, for the examples.\<close>

definition one_staff_score :: score_root where
  "one_staff_score =
     \<lparr>root_division = Some (IntText 480),
      root_staves = [[[[tied 60 ''quarter'' False False]]]],
      root_key_sigs = []\<rparr>"

definition one_note_track_file :: midi_file where
  "one_note_track_file =
     \<lparr>mf_ticks_per_beat = 480,
      mf_tracks = [[track_name ''Piano''], [on_msg 0 60, on_msg 0 64]]\<rparr>"

section \<open>Proofs\<close>

subsection \<open>Tie chains\<close>

lemma adds_refl: "adds p s s []"
  by (simp add: adds_def)

lemma adds_trans: "adds p s s' X \<Longrightarrow> adds p s' s'' Y \<Longrightarrow> adds p s s'' (X @ Y)"
  by (auto simp: adds_def)

lemma other_note:
  assumes "other_pitch p n"
  shows "\<exists>s'. process_note d s n = Inr s' \<and> open_ties s' p = open_ties s p
           \<and> current_tick s' = current_tick s \<and> adds p s s' []"
  using assms
  by (auto simp: other_pitch_def process_note_def adds_def Let_def note_on_def note_off_def
      split: option.splits node_text.splits)

lemma other_notes:
  assumes "list_all (other_pitch p) ns"
  shows "\<exists>s'. process_notes d s ns = Inr s' \<and> open_ties s' p = open_ties s p
           \<and> current_tick s' = current_tick s \<and> adds p s s' []"
  using assms
proof (induction ns arbitrary: s)
  case Nil
  then show ?case by (simp add: adds_refl)
next
  case (Cons n ns)
  from Cons.prems have n: "other_pitch p n" and ns: "list_all (other_pitch p) ns" by simp_all
  from other_note[OF n, of d s] obtain s1 where
    s1: "process_note d s n = Inr s1" "open_ties s1 p = open_ties s p"
        "current_tick s1 = current_tick s" "adds p s s1 []" by blast
  from Cons.IH[OF ns, of s1] obtain s2 where
    s2: "process_notes d s1 ns = Inr s2" "open_ties s2 p = open_ties s1 p"
        "current_tick s2 = current_tick s1" "adds p s1 s2 []" by blast
  from adds_trans[OF s1(4) s2(4)] have "adds p s s2 []" by simp
  with s1 s2 show ?case by simp
qed


lemma process_notes_append:
  "process_notes d s (xs @ ys) =
     (case process_notes d s xs of Inl e \<Rightarrow> Inl e | Inr s' \<Rightarrow> process_notes d s' ys)"
  by (induction xs arbitrary: s) (auto split: sum.splits)

lemma link_notes_split:
  assumes "link_notes p a b ns"
  shows "\<exists>pre n post. ns = pre @ n # post \<and> list_all (other_pitch p) pre
           \<and> list_all (other_pitch p) post \<and> pitch_node n = Some (IntText p)
           \<and> spanner_prev n = a \<and> spanner_next n = b"
  using assms
proof (induction ns)
  case Nil
  then show ?case by simp
next
  case (Cons m ms)
  show ?case
  proof (cases "pitch_node m = Some (IntText p)")
    case True
    with Cons.prems have "spanner_prev m = a" "spanner_next m = b" "list_all (other_pitch p) ms"
      by simp_all
    with True have "m # ms = [] @ m # ms \<and> list_all (other_pitch p) [] \<and>
        list_all (other_pitch p) ms \<and> pitch_node m = Some (IntText p) \<and>
        spanner_prev m = a \<and> spanner_next m = b" by simp
    then show ?thesis by blast
  next
    case False
    with Cons.prems have m: "other_pitch p m" and "link_notes p a b ms" by simp_all
    from Cons.IH[OF this(2)] obtain pre n post where
      h: "ms = pre @ n # post" "list_all (other_pitch p) pre" "list_all (other_pitch p) post"
         "pitch_node n = Some (IntText p)" "spanner_prev n = a" "spanner_next n = b" by blast
    from h m have "m # ms = (m # pre) @ n # post \<and> list_all (other_pitch p) (m # pre) \<and>
        list_all (other_pitch p) post \<and> pitch_node n = Some (IntText p) \<and>
        spanner_prev n = a \<and> spanner_next n = b" by simp
    then show ?thesis by blast
  qed
qed

lemma link_note:
  assumes "pitch_node n = Some (IntText p)" "spanner_prev n = a" "spanner_next n = b"
  shows "process_note d s n = Inr (link_effect d p a b s)"
  using assms
  by (auto simp: process_note_def link_effect_def Let_def split: option.splits)


lemma adds_link_effect:
  "adds p s (link_effect d p a b s)
     (if a then (case open_ties s p of None \<Rightarrow> []
                 | Some (start, acc) \<Rightarrow>
                     if b then [] else [note_on start p, note_off (start + (acc + d)) p])
      else if b then [] else [note_on (current_tick s) p, note_off (current_tick s + d) p])"
  by (auto simp: adds_def link_effect_def note_on_def note_off_def split: option.splits)

lemma tick_link_effect: "current_tick (link_effect d p a b s) = current_tick s"
  by (auto simp: link_effect_def split: option.splits)

lemma ties_link_effect:
  "open_ties (link_effect d p a b s) p =
     (if a then (case open_ties s p of None \<Rightarrow> None
                 | Some (start, acc) \<Rightarrow> if b then Some (start, acc + d) else None)
      else if b then Some (current_tick s, d) else open_ties s p)"
  by (auto simp: link_effect_def split: option.splits)

lemma link_notes_run:
  assumes "link_notes p a b ns"
  shows "\<exists>s1 s2. process_notes d s ns = Inr s2
           \<and> open_ties s1 p = open_ties s p \<and> current_tick s1 = current_tick s
           \<and> adds p s s1 []
           \<and> open_ties s2 p = open_ties (link_effect d p a b s1) p
           \<and> current_tick s2 = current_tick s
           \<and> adds p (link_effect d p a b s1) s2 []"
proof -
  from link_notes_split[OF assms] obtain pre n post where
    h: "ns = pre @ n # post" "list_all (other_pitch p) pre" "list_all (other_pitch p) post"
       "pitch_node n = Some (IntText p)" "spanner_prev n = a" "spanner_next n = b" by blast
  from other_notes[OF h(2), of d s] obtain s1 where
    s1: "process_notes d s pre = Inr s1" "open_ties s1 p = open_ties s p"
        "current_tick s1 = current_tick s" "adds p s s1 []" by blast
  have step: "process_note d s1 n = Inr (link_effect d p a b s1)"
    by (rule link_note[OF h(4) h(5) h(6)])
  from other_notes[OF h(3), of d "link_effect d p a b s1"] obtain s2 where
    s2: "process_notes d (link_effect d p a b s1) post = Inr s2"
        "open_ties s2 p = open_ties (link_effect d p a b s1) p"
        "current_tick s2 = current_tick (link_effect d p a b s1)"
        "adds p (link_effect d p a b s1) s2 []" by blast
  have run: "process_notes d s ns = Inr s2"
    by (simp add: h(1) process_notes_append s1(1) step s2(1))
  from s2(3) s1(3) have "current_tick s2 = current_tick s" by (simp add: tick_link_effect)
  with run s1 s2 show ?thesis by blast
qed

lemma link_run:
  assumes "link p a b e"
  shows "\<exists>s'. process_element tpq s e = Inr s'
           \<and> current_tick s' = current_tick s + el_duration tpq e
           \<and> open_ties s' p =
               (if a then (case open_ties s p of None \<Rightarrow> None
                   | Some (start, acc) \<Rightarrow>
                       if b then Some (start, acc + el_duration tpq e) else None)
                else if b then Some (current_tick s, el_duration tpq e) else open_ties s p)
           \<and> adds p s s'
               (if a then (case open_ties s p of None \<Rightarrow> []
                   | Some (start, acc) \<Rightarrow>
                       if b then []
                       else [note_on start p, note_off (start + (acc + el_duration tpq e)) p])
                else if b then []
                else [note_on (current_tick s) p,
                      note_off (current_tick s + el_duration tpq e) p])"
proof -
  from assms obtain dt where dt: "el_durationType e = Some dt" and tag: "el_tag e = ''Chord''"
    and ln: "link_notes p a b (el_notes e)" by (auto simp: link_def)
  define d where "d = el_duration tpq e"
  have d: "base_duration tpq dt (el_dots e) = d" by (simp add: d_def el_duration_def dt)
  from link_notes_run[OF ln, of d s] obtain s1 s2 where
    r: "process_notes d s (el_notes e) = Inr s2"
       "open_ties s1 p = open_ties s p" "current_tick s1 = current_tick s" "adds p s s1 []"
       "open_ties s2 p = open_ties (link_effect d p a b s1) p"
       "current_tick s2 = current_tick s" "adds p (link_effect d p a b s1) s2 []" by blast
  let ?s' = "s2\<lparr>current_tick := current_tick s2 + d\<rparr>"
  have run: "process_element tpq s e = Inr ?s'"
    by (simp add: process_element_def dt tag d r(1))
  have tick: "current_tick ?s' = current_tick s + d" by (simp add: r(6))
  have ties: "open_ties ?s' p = open_ties (link_effect d p a b s1) p" by (simp add: r(5))
  let ?X = "if a then (case open_ties s p of None \<Rightarrow> []
                 | Some (start, acc) \<Rightarrow>
                     if b then [] else [note_on start p, note_off (start + (acc + d)) p])
      else if b then [] else [note_on (current_tick s) p, note_off (current_tick s + d) p]"
  have "adds p s1 (link_effect d p a b s1) ?X"
    using adds_link_effect[of p s1 d a b] unfolding r(2) r(3) .
  from adds_trans[OF r(4) adds_trans[OF this r(7)]] have "adds p s s2 ?X" by simp
  then have ev: "adds p s ?s' ?X"
    unfolding adds_def by simp
  show ?thesis
    unfolding d_def[symmetric]
    using run tick ties ev by (simp add: ties_link_effect r(2) r(3))
qed

lemma foreign_run:
  assumes "foreign p e"
  shows "\<exists>s'. process_element tpq s e = Inr s' \<and> open_ties s' p = open_ties s p
           \<and> adds p s s' []"
proof (cases "el_durationType e")
  case None
  then show ?thesis by (simp add: process_element_def adds_refl)
next
  case (Some dt)
  show ?thesis
  proof (cases "el_tag e = ''Chord''")
    case True
    with assms Some have "list_all (other_pitch p) (el_notes e)" by (simp add: foreign_def)
    from other_notes[OF this, of "base_duration tpq dt (el_dots e)" s] obtain s1 where
      s1: "process_notes (base_duration tpq dt (el_dots e)) s (el_notes e) = Inr s1"
          "open_ties s1 p = open_ties s p" "adds p s s1 []" by blast
    then show ?thesis by (simp add: process_element_def Some True Let_def adds_def)
  next
    case False
    then show ?thesis by (simp add: process_element_def Some Let_def adds_def)
  qed
qed


lemma link_not_foreign:
  assumes "link p a b e"
  shows "\<not> foreign p e"
proof -
  from assms have ln: "link_notes p a b (el_notes e)" by (simp add: link_def)
  from link_notes_split[OF ln] obtain pre n post where
    h: "el_notes e = pre @ n # post" "pitch_node n = Some (IntText p)" by blast
  then have "\<not> other_pitch p n" by (simp add: other_pitch_def)
  with h(1) have "\<not> list_all (other_pitch p) (el_notes e)" by simp
  with assms show ?thesis by (simp add: foreign_def link_def)
qed

lemma chain_tail_run:
  assumes "chain_tail p es" "open_ties s p = Some (start, acc)"
  shows "\<exists>s'. process_voice tpq s es = Inr s'
           \<and> adds p s s' [note_on start p,
                note_off (start + (acc + sum_list (segment_durations tpq p es))) p]"
  using assms
proof (induction es arbitrary: s acc)
  case Nil
  then show ?case by simp
next
  case (Cons e es)
  show ?case
  proof (cases "foreign p e")
    case True
    with Cons.prems have tl: "chain_tail p es" by simp
    from foreign_run[OF True, of tpq s] obtain s1 where
      s1: "process_element tpq s e = Inr s1" "open_ties s1 p = open_ties s p" "adds p s s1 []"
      by blast
    from s1(2) Cons.prems(2) have "open_ties s1 p = Some (start, acc)" by simp
    from Cons.IH[OF tl this] obtain s' where
      s': "process_voice tpq s1 es = Inr s'"
          "adds p s1 s' [note_on start p,
             note_off (start + (acc + sum_list (segment_durations tpq p es))) p]" by blast
    from adds_trans[OF s1(3) s'(2)] s1(1) s'(1) True show ?thesis
      by (simp add: segment_durations_def)
  next
    case False
    show ?thesis
    proof (cases "es = []")
      case True
      with False Cons.prems have lk: "link p True False e" by simp
      from link_run[OF lk, of tpq s] Cons.prems(2) obtain s' where
        "process_element tpq s e = Inr s'"
        "adds p s s' [note_on start p, note_off (start + (acc + el_duration tpq e)) p]"
        by auto
      with True False show ?thesis by (simp add: segment_durations_def)
    next
      case ne: False
      with False Cons.prems have lk: "link p True True e" and tl: "chain_tail p es" by simp_all
      from link_run[OF lk, of tpq s] Cons.prems(2) obtain s1 where
        s1: "process_element tpq s e = Inr s1"
            "open_ties s1 p = Some (start, acc + el_duration tpq e)" "adds p s s1 []"
        by auto
      from Cons.IH[OF tl s1(2)] obtain s' where
        s': "process_voice tpq s1 es = Inr s'"
            "adds p s1 s' [note_on start p,
               note_off (start + (acc + el_duration tpq e
                  + sum_list (segment_durations tpq p es))) p]" by blast
      from adds_trans[OF s1(3) s'(2)] s1(1) s'(1) False show ?thesis
        by (simp add: segment_durations_def add.assoc)
    qed
  qed
qed

lemma tie_chain_in_voice:
  assumes "tie_chain p es"
  shows "\<exists>s' new. process_voice tpq s es = Inr s' \<and> events s' = events s @ new
           \<and> filter (\<lambda>x. ev_pitch x = p) new =
               [note_on (current_tick s) p,
                note_off (current_tick s + sum_list (segment_durations tpq p es)) p]"
proof -
  from assms obtain e es' where es: "es = e # es'" by (cases es) (simp_all add: tie_chain_def)
  show ?thesis
  proof (cases "es' = []")
    case True
    with assms es have lk: "link p False False e" by (simp add: tie_chain_def)
    from link_run[OF lk, of tpq s] obtain s' where
      "process_element tpq s e = Inr s'"
      "adds p s s' [note_on (current_tick s) p, note_off (current_tick s + el_duration tpq e) p]"
      by auto
    with es True link_not_foreign[OF lk] show ?thesis
      by (simp add: segment_durations_def adds_def)
  next
    case False
    with assms es have lk: "link p False True e" and tl: "chain_tail p es'"
      by (simp_all add: tie_chain_def)
    from link_run[OF lk, of tpq s] obtain s1 where
      s1: "process_element tpq s e = Inr s1"
          "open_ties s1 p = Some (current_tick s, el_duration tpq e)" "adds p s s1 []"
      by auto
    from chain_tail_run[OF tl s1(2), of tpq] obtain s' where
      s': "process_voice tpq s1 es' = Inr s'"
          "adds p s1 s' [note_on (current_tick s) p,
             note_off (current_tick s + (el_duration tpq e
                + sum_list (segment_durations tpq p es'))) p]" by blast
    from adds_trans[OF s1(3) s'(2)] s1(1) s'(1) es link_not_foreign[OF lk] show ?thesis
      by (simp add: segment_durations_def adds_def)
  qed
qed

lemma process_voice_append:
  "process_voice tpq s (xs @ ys) =
     (case process_voice tpq s xs of Inl e \<Rightarrow> Inl e | Inr s' \<Rightarrow> process_voice tpq s' ys)"
  by (induction xs arbitrary: s) (auto split: sum.splits)

lemma process_measure_flat: "process_measure tpq s m = process_voice tpq s (concat m)"
  by (induction m arbitrary: s) (auto simp: process_voice_append split: sum.splits)

lemma process_staff_flat: "process_staff tpq s st = process_voice tpq s (concat (concat st))"
  by (induction st arbitrary: s)
     (auto simp: process_voice_append process_measure_flat split: sum.splits)

lemma readable_note:
  assumes "case pitch_node n of None \<Rightarrow> True | Some (IntText q) \<Rightarrow> True | Some _ \<Rightarrow> False"
  shows "\<exists>s'. process_note d s n = Inr s'"
  using assms by (auto simp: process_note_def split: option.splits node_text.splits)

lemma readable_notes:
  assumes "list_all (\<lambda>n. case pitch_node n of
                          None \<Rightarrow> True | Some (IntText q) \<Rightarrow> True | Some _ \<Rightarrow> False) ns"
  shows "\<exists>s'. process_notes d s ns = Inr s'"
  using assms
proof (induction ns arbitrary: s)
  case Nil
  then show ?case by simp
next
  case (Cons n ns)
  from Cons.prems readable_note[of n d s] obtain s1 where "process_note d s n = Inr s1"
    by auto
  with Cons.IH[of s1] Cons.prems show ?case by simp
qed

lemma readable_element:
  assumes "readable e"
  shows "\<exists>s'. process_element tpq s e = Inr s'"
proof (cases "el_durationType e")
  case None
  then show ?thesis by (simp add: process_element_def)
next
  case (Some dt)
  show ?thesis
  proof (cases "el_tag e = ''Chord''")
    case True
    with assms Some have "list_all (\<lambda>n. case pitch_node n of
        None \<Rightarrow> True | Some (IntText q) \<Rightarrow> True | Some _ \<Rightarrow> False) (el_notes e)"
      by (simp add: readable_def)
    from readable_notes[OF this, of "base_duration tpq dt (el_dots e)" s]
    show ?thesis by (auto simp: process_element_def Some True)
  next
    case False
    then show ?thesis by (simp add: process_element_def Some Let_def)
  qed
qed

lemma process_element_extends:
  assumes "process_element tpq s e = Inr s'"
  shows "\<exists>new. events s' = events s @ new"
proof -
  have note_ext: "\<exists>new. events t' = events t @ new" if "process_note d t n = Inr t'" for d t n t'
    using that
    by (auto simp: process_note_def Let_def split: option.splits sum.splits if_splits)
  have notes_ext: "\<exists>new. events t' = events t @ new" if "process_notes d t ns = Inr t'"
    for d t ns t'
    using that
  proof (induction ns arbitrary: t)
    case Nil
    then show ?case by simp
  next
    case (Cons n ns)
    then obtain t1 where t1: "process_note d t n = Inr t1" "process_notes d t1 ns = Inr t'"
      by (auto split: sum.splits)
    from note_ext[OF t1(1)] Cons.IH[OF t1(2)] show ?case by auto
  qed
  from assms show ?thesis
    by (auto simp: process_element_def Let_def split: option.splits sum.splits if_splits
        dest: notes_ext)
qed

lemma readable_run:
  assumes "list_all readable es"
  shows "\<exists>s' new. process_voice tpq s es = Inr s' \<and> events s' = events s @ new"
  using assms
proof (induction es arbitrary: s)
  case Nil
  then show ?case by simp
next
  case (Cons e es)
  from Cons.prems readable_element[of e tpq s] obtain s1 where
    s1: "process_element tpq s e = Inr s1" by auto
  from process_element_extends[OF s1] obtain n1 where n1: "events s1 = events s @ n1" by blast
  from Cons.IH[of s1] Cons.prems obtain s' n2 where
    "process_voice tpq s1 es = Inr s'" "events s' = events s1 @ n2" by auto
  with s1 n1 show ?case by simp
qed

lemma staff_events:
  "get_note_events_from_staff (Some (IntText division)) st =
     (case process_voice division initial_state (concat (concat st)) of
        Inl e \<Rightarrow> Inl e | Inr s \<Rightarrow> Inr (events s))"
  by (simp add: get_note_events_from_staff_def process_staff_flat)

text \<open>
  Claim C1. Let the elements of a staff, in the order in which
  \<^verbatim>\<open>get_note_events_from_staff\<close> scans its measures and voices, be some readable
  elements, then a tie chain of pitch \<open>p\<close> with any number of segments, then some readable
  elements. The chain may lie in several voices and measures, it may be a single untied
  note, its chords may hold notes of other pitches, and elements foreign to \<open>p\<close> may stand
  between its segments. Then the function returns the events of the elements before the
  chain, followed by the events emitted during the chain, followed by the events of the
  elements after it; and the events of pitch \<open>p\<close> emitted during the chain are exactly two:
  a \<^verbatim>\<open>note_on\<close> at the tick the scan has reached when the chain starts and a
  \<^verbatim>\<open>note_off\<close> at that tick plus the sum of the resolved durations of the segments.
\<close>

theorem tie_chain_single_pair:
  assumes "tie_chain p es"
      and "concat (concat staff_node) = before @ es @ after"
      and "list_all readable before" and "list_all readable after"
  shows "\<exists>s0 new rest.
           process_voice division initial_state before = Inr s0
         \<and> get_note_events_from_staff (Some (IntText division)) [[before]] = Inr (events s0)
         \<and> get_note_events_from_staff (Some (IntText division)) [[before @ es]]
             = Inr (events s0 @ new)
         \<and> get_note_events_from_staff (Some (IntText division)) staff_node
             = Inr (events s0 @ new @ rest)
         \<and> filter (\<lambda>x. ev_pitch x = p) new =
             [note_on (current_tick s0) p,
              note_off (current_tick s0 + sum_list (segment_durations division p es)) p]"
proof -
  from readable_run[OF assms(3), of division initial_state] obtain s0 where
    s0: "process_voice division initial_state before = Inr s0" by blast
  from tie_chain_in_voice[OF assms(1), of division s0] obtain s1 new where
    s1: "process_voice division s0 es = Inr s1" "events s1 = events s0 @ new"
        "filter (\<lambda>x. ev_pitch x = p) new =
           [note_on (current_tick s0) p,
            note_off (current_tick s0 + sum_list (segment_durations division p es)) p]"
    by blast
  from readable_run[OF assms(4), of division s1] obtain s2 rest where
    s2: "process_voice division s1 after = Inr s2" "events s2 = events s1 @ rest" by blast
  have a: "get_note_events_from_staff (Some (IntText division)) [[before]] = Inr (events s0)"
    by (simp add: staff_events s0)
  have b: "get_note_events_from_staff (Some (IntText division)) [[before @ es]]
      = Inr (events s0 @ new)"
    by (simp add: staff_events process_voice_append s0 s1)
  have c: "get_note_events_from_staff (Some (IntText division)) staff_node
      = Inr (events s0 @ new @ rest)"
    by (simp add: staff_events assms(2) process_voice_append s0 s1 s2)
  from s0 a b c s1(3) show ?thesis by blast
qed

theorem tie_chain_single_pair_witness:
  "tie_chain 60 [tied 60 ''half'' False True, tied 60 ''quarter'' True False]
   \<and> concat (concat staff_with_tie_over_barline)
       = [tied 64 ''quarter'' False False]
         @ [tied 60 ''half'' False True, tied 60 ''quarter'' True False]
         @ [tied 67 ''quarter'' False False]
   \<and> list_all readable [tied 64 ''quarter'' False False]
   \<and> list_all readable [tied 67 ''quarter'' False False]
   \<and> get_note_events_from_staff (Some (IntText 480)) staff_with_tie_over_barline
       = Inr [note_on 0 64, note_off 480 64, note_on 480 60, note_off 1920 60,
              note_on 1920 67, note_off 2400 67]
   \<and> (\<exists>s0 new rest.
           process_voice 480 initial_state [tied 64 ''quarter'' False False] = Inr s0
         \<and> get_note_events_from_staff (Some (IntText 480)) staff_with_tie_over_barline
             = Inr (events s0 @ new @ rest)
         \<and> filter (\<lambda>x. ev_pitch x = 60) new =
             [note_on (current_tick s0) 60, note_off (current_tick s0 + 1440) 60])"
proof -
  have h1: "tie_chain 60 [tied 60 ''half'' False True, tied 60 ''quarter'' True False]"
    by (simp add: tie_chain_def tied_def link_def foreign_def other_pitch_def)
  have h2: "concat (concat staff_with_tie_over_barline)
       = [tied 64 ''quarter'' False False]
         @ [tied 60 ''half'' False True, tied 60 ''quarter'' True False]
         @ [tied 67 ''quarter'' False False]"
    by (simp add: staff_with_tie_over_barline_def)
  have h3: "list_all readable [tied 64 ''quarter'' False False]"
    by (simp add: readable_def tied_def)
  have h4: "list_all readable [tied 67 ''quarter'' False False]"
    by (simp add: readable_def tied_def)
  have d: "sum_list (segment_durations 480 60
      [tied 60 ''half'' False True, tied 60 ''quarter'' True False]) = 1440"
    by (simp add: segment_durations_def tied_def foreign_def other_pitch_def el_duration_def
        base_duration_def duration_get_def duration_map_def)
  have v: "get_note_events_from_staff (Some (IntText 480)) staff_with_tie_over_barline
       = Inr [note_on 0 64, note_off 480 64, note_on 480 60, note_off 1920 60,
              note_on 1920 67, note_off 2400 67]"
    by (simp add: get_note_events_from_staff_def staff_with_tie_over_barline_def
        initial_state_def tied_def process_element_def process_note_def base_duration_def
        duration_get_def duration_map_def)
  from tie_chain_single_pair[OF h1 h2 h3 h4, of 480]
  have "\<exists>s0 new rest.
           process_voice 480 initial_state [tied 64 ''quarter'' False False] = Inr s0
         \<and> get_note_events_from_staff (Some (IntText 480)) staff_with_tie_over_barline
             = Inr (events s0 @ new @ rest)
         \<and> filter (\<lambda>x. ev_pitch x = 60) new =
             [note_on (current_tick s0) 60, note_off (current_tick s0 + 1440) 60]"
    unfolding d by blast
  with h1 h2 h3 h4 v show ?thesis by blast
qed

text \<open>
  Claim C2. With a division of 480, a half note tied to a quarter note of the same pitch
  gives one \<^verbatim>\<open>note_on\<close> at tick 0 and one \<^verbatim>\<open>note_off\<close> at tick 1440: the half note
  is 960 ticks and the quarter note 480. The \<^verbatim>\<open>note_off\<close> is not at tick 720.
\<close>

theorem half_tied_to_quarter_1440:
  "get_note_events_from_staff (Some (IntText 480))
     [[[tied p ''half'' False True, tied p ''quarter'' True False]]]
   = Inr [note_on 0 p, note_off 1440 p]"
  by (simp add: get_note_events_from_staff_def initial_state_def tied_def process_element_def
      process_note_def base_duration_def duration_get_def duration_map_def)

theorem half_tied_to_quarter_not_720:
  "get_note_events_from_staff (Some (IntText 480))
     [[[tied 60 ''half'' False True, tied 60 ''quarter'' True False]]]
   \<noteq> Inr [note_on 0 60, note_off 720 60]"
  by (simp add: get_note_events_from_staff_def initial_state_def tied_def process_element_def
      process_note_def base_duration_def duration_get_def duration_map_def note_off_def)

lemma process_note_tick: "process_note d s n = Inr s' \<Longrightarrow> current_tick s' = current_tick s"
  by (auto simp: process_note_def Let_def split: option.splits sum.splits if_splits)

lemma process_notes_tick: "process_notes d s ns = Inr s' \<Longrightarrow> current_tick s' = current_tick s"
proof (induction ns arbitrary: s)
  case Nil
  then show ?case by simp
next
  case (Cons n ns)
  then show ?case by (auto split: sum.splits dest: process_note_tick)
qed

lemma dangling_note:
  assumes "pitch_node n = Some (IntText p)" "spanner_prev n" "open_ties s p = None"
  shows "process_note d s n = Inr s"
  using assms by (simp add: process_note_def)

text \<open>
  Claim C10. Take a chord with a duration type and a note \<open>n\<close> of pitch \<open>p\<close> that is marked
  as tied from the previous note, at any place among the notes of the chord, and let no
  tie chain of \<open>p\<close> be open when the scan reaches \<open>n\<close>. Then the scan of \<open>n\<close> raises
  nothing and leaves the state as it found it (no event, no open tie), the chord gives the
  same result as the chord without \<open>n\<close>, and the cursor moves on by the resolved duration
  of the chord.
\<close>

theorem dangling_tie_dropped:
  assumes chord: "el_tag e = ''Chord''" "el_durationType e \<noteq> None"
      and ns: "el_notes e = pre @ n # post"
      and n: "pitch_node n = Some (IntText p)" "spanner_prev n"
      and pre: "process_notes (el_duration tpq e) s pre = Inr s1"
      and no_chain: "open_ties s1 p = None"
      and post: "process_notes (el_duration tpq e) s1 post = Inr s2"
  shows "process_note (el_duration tpq e) s1 n = Inr s1
       \<and> process_element tpq s e = Inr (s2\<lparr>current_tick := current_tick s + el_duration tpq e\<rparr>)
       \<and> process_element tpq s e = process_element tpq s (e\<lparr>el_notes := pre @ post\<rparr>)"
proof -
  from chord(2) obtain dt where dt: "el_durationType e = Some dt" by auto
  have d: "base_duration tpq dt (el_dots e) = el_duration tpq e"
    by (simp add: el_duration_def dt)
  have step: "process_note (el_duration tpq e) s1 n = Inr s1"
    by (rule dangling_note[OF n no_chain])
  have t: "current_tick s2 = current_tick s"
    using process_notes_tick[OF pre] process_notes_tick[OF post] by simp
  have with_n: "process_notes (el_duration tpq e) s (pre @ n # post) = Inr s2"
    by (simp add: process_notes_append pre step post)
  have without_n: "process_notes (el_duration tpq e) s (pre @ post) = Inr s2"
    by (simp add: process_notes_append pre post)
  have r1: "process_element tpq s e
      = Inr (s2\<lparr>current_tick := current_tick s + el_duration tpq e\<rparr>)"
    by (simp add: process_element_def dt chord(1) d ns with_n t)
  have r2: "process_element tpq s (e\<lparr>el_notes := pre @ post\<rparr>)
      = Inr (s2\<lparr>current_tick := current_tick s + el_duration tpq e\<rparr>)"
    by (simp add: process_element_def dt chord(1) d without_n t)
  from step r1 r2 show ?thesis by simp
qed


theorem dangling_tie_dropped_witness:
  "el_duration 480 chord_with_dangling_tie = 480
   \<and> process_note (el_duration 480 chord_with_dangling_tie)
      \<lparr>events = [note_on 0 64, note_off 480 64], current_tick = 0, open_ties = Map.empty\<rparr>
      (plain_note 60 True False)
     = Inr \<lparr>events = [note_on 0 64, note_off 480 64], current_tick = 0, open_ties = Map.empty\<rparr>
   \<and> process_element 480 initial_state chord_with_dangling_tie
     = Inr (\<lparr>events = [note_on 0 64, note_off 480 64, note_on 0 67, note_off 480 67],
            current_tick = 0, open_ties = Map.empty\<rparr>
            \<lparr>current_tick := current_tick initial_state + el_duration 480 chord_with_dangling_tie\<rparr>)
   \<and> process_element 480 initial_state chord_with_dangling_tie
     = process_element 480 initial_state
         (chord_with_dangling_tie\<lparr>el_notes := [plain_note 64 False False] @ [plain_note 67 False False]\<rparr>)"
proof -
  have d: "el_duration 480 chord_with_dangling_tie = 480"
    by (simp add: el_duration_def chord_with_dangling_tie_def base_duration_def duration_get_def duration_map_def)
  have pre: "process_notes (el_duration 480 chord_with_dangling_tie) initial_state [plain_note 64 False False]
      = Inr \<lparr>events = [note_on 0 64, note_off 480 64], current_tick = 0, open_ties = Map.empty\<rparr>"
    unfolding d by (simp add: process_note_def plain_note_def initial_state_def)
  have post: "process_notes (el_duration 480 chord_with_dangling_tie)
       \<lparr>events = [note_on 0 64, note_off 480 64], current_tick = 0, open_ties = Map.empty\<rparr>
       [plain_note 67 False False]
      = Inr \<lparr>events = [note_on 0 64, note_off 480 64, note_on 0 67, note_off 480 67],
            current_tick = 0, open_ties = Map.empty\<rparr>"
    unfolding d by (simp add: process_note_def plain_note_def)
  show ?thesis
    by (rule conjI[OF d dangling_tie_dropped[where p = 60, OF _ _ _ _ _ pre _ post]])
       (simp_all add: chord_with_dangling_tie_def plain_note_def)
qed

subsection \<open>The key signature resolver\<close>

lemma key_name_out_of_range:
  assumes "n < -7 \<or> 7 < n"
  shows "key_name n m = ''C''"
  using assms by (auto simp: key_name_def SHARPS_TO_MAJOR_def SHARPS_TO_MINOR_def Let_def)

lemma scan_skipped:
  assumes "list_all skipped pre"
  shows "scan_key_sigs (pre @ rest) = scan_key_sigs rest"
  using assms
  by (induction pre) (auto simp: skipped_def split: option.splits node_text.splits)

lemma scan_invalid:
  assumes "invalid_count k"
  shows "scan_key_sigs (k # rest) = Inl ValueError \<or> scan_key_sigs (k # rest) = Inr ''C''"
  using assms
  by (auto simp: invalid_count_def key_name_out_of_range split: option.splits node_text.splits)

text \<open>
  Claim C4, as amended. A declaration whose accidental count does not parse or lies outside
  \<open>-7..7\<close>, reached by the scan (every declaration before it is skipped), makes the
  resolver return \<open>C\<close> at once, whatever declarations follow: no exception leaves the
  function, and the scan does not go on to the next declaration.
\<close>

theorem invalid_count_returns_C:
  assumes "list_all skipped pre" "invalid_count k"
  shows "get_key_signature (pre @ k # rest) = ''C''"
proof -
  have "scan_key_sigs (pre @ k # rest) = scan_key_sigs (k # rest)"
    by (rule scan_skipped[OF assms(1)])
  with scan_invalid[OF assms(2), of rest] show ?thesis
    by (auto simp: get_key_signature_def)
qed

theorem invalid_count_returns_C_witness:
  "list_all skipped [\<lparr>ks_accidental = None, ks_mode = None\<rparr>]
   \<and> invalid_count \<lparr>ks_accidental = Some (IntText 9), ks_mode = None\<rparr>
   \<and> get_key_signature
        ([\<lparr>ks_accidental = None, ks_mode = None\<rparr>]
         @ \<lparr>ks_accidental = Some (IntText 9), ks_mode = None\<rparr>
         # [\<lparr>ks_accidental = Some (IntText 2), ks_mode = None\<rparr>]) = ''C''"
proof -
  have a: "list_all skipped [\<lparr>ks_accidental = None, ks_mode = None\<rparr>]"
    by (simp add: skipped_def)
  have b: "invalid_count \<lparr>ks_accidental = Some (IntText 9), ks_mode = None\<rparr>"
    by (simp add: invalid_count_def)
  from a b invalid_count_returns_C[OF a b] show ?thesis by blast
qed

theorem scan_stops_at_invalid_count:
  "get_key_signature
     [\<lparr>ks_accidental = Some (IntText 9), ks_mode = None\<rparr>,
      \<lparr>ks_accidental = Some (IntText 2), ks_mode = None\<rparr>] = ''C''
   \<and> resolve_key_continuing
     [\<lparr>ks_accidental = Some (IntText 9), ks_mode = None\<rparr>,
      \<lparr>ks_accidental = Some (IntText 2), ks_mode = None\<rparr>] = ''D''
   \<and> get_key_signature [\<lparr>ks_accidental = Some (IntText 2), ks_mode = None\<rparr>] = ''D''"
  by (simp add: get_key_signature_def key_name_def SHARPS_TO_MAJOR_def skipped_def
      invalid_count_def count_of_def)

lemma scan_characterised:
  "scan_key_sigs kss =
     (if list_all skipped (takeWhile (\<lambda>k. \<not> parseable k) kss)
      then Inr (resolve_key_spec kss) else Inl ValueError)"
proof (induction kss)
  case Nil
  then show ?case by (simp add: resolve_key_spec_def)
next
  case (Cons k kss)
  show ?case
  proof (cases "ks_accidental k")
    case None
    with Cons show ?thesis by (simp add: skipped_def parseable_def resolve_key_spec_def)
  next
    case (Some t)
    with Cons show ?thesis
      by (cases t) (simp_all add: skipped_def parseable_def resolve_key_spec_def count_of_def)
  qed
qed

text \<open>
  Claim C9, as amended. The resolver returns the key name of the first declaration with a
  present, parseable accidental count (its count looked up in the table of its mode, major
  when there is no mode node; \<open>C\<close> when there is no such declaration) provided every
  declaration before it has an absent or blank accidental field. When a declaration with a
  present count that does not parse comes first, the result is \<open>C\<close>. A count of 2 with
  mode minor gives \<open>Bm\<close>.
\<close>

theorem first_present_count_decides:
  "get_key_signature kss =
     (if list_all skipped (takeWhile (\<lambda>k. \<not> parseable k) kss)
      then resolve_key_spec kss else ''C'')
   \<and> get_key_signature [\<lparr>ks_accidental = Some (IntText 2), ks_mode = Some (Some ''minor'')\<rparr>]
       = ''Bm''
   \<and> key_name n None = key_name n (Some (Some ''major''))"
  by (simp add: get_key_signature_def scan_characterised)
     (simp add: resolve_key_spec_def parseable_def count_of_def key_name_def SHARPS_TO_MINOR_def)

theorem first_present_count_decides_witness:
  "get_key_signature
     [\<lparr>ks_accidental = Some Blank, ks_mode = None\<rparr>,
      \<lparr>ks_accidental = Some (IntText (-3)), ks_mode = Some (Some ''minor'')\<rparr>,
      \<lparr>ks_accidental = Some (IntText 1), ks_mode = None\<rparr>] = ''Cm''"
  using first_present_count_decides[of
     "[\<lparr>ks_accidental = Some Blank, ks_mode = None\<rparr>,
      \<lparr>ks_accidental = Some (IntText (-3)), ks_mode = Some (Some ''minor'')\<rparr>,
      \<lparr>ks_accidental = Some (IntText 1), ks_mode = None\<rparr>]" 0]
  by (simp add: resolve_key_spec_def parseable_def skipped_def count_of_def key_name_def
      SHARPS_TO_MINOR_def)

theorem unparseable_count_hides_later_key:
  "get_key_signature
     [\<lparr>ks_accidental = Some OtherText, ks_mode = None\<rparr>,
      \<lparr>ks_accidental = Some (IntText 2), ks_mode = None\<rparr>] = ''C''
   \<and> resolve_key_spec
     [\<lparr>ks_accidental = Some OtherText, ks_mode = None\<rparr>,
      \<lparr>ks_accidental = Some (IntText 2), ks_mode = None\<rparr>] = ''D''"
  by (simp add: get_key_signature_def resolve_key_spec_def parseable_def count_of_def
      key_name_def SHARPS_TO_MAJOR_def)

subsection \<open>The hand-split heuristic\<close>

lemma counts_get_count_notes:
  "counts_get (count_notes ns m) q = counts_get m q + int (count_list ns q)"
  by (induction ns arbitrary: m) (auto simp: counts_get_def)

lemma fold_add_sum_list:
  "fold (\<lambda>n d. d + f n) xs (a::int) = a + sum_list (map f xs)"
  by (induction xs arbitrary: a) auto

lemma density_local_density:
  "density (count_notes all_notes Map.empty) p = local_density all_notes p"
proof -
  have "counts_get (count_notes all_notes Map.empty) = (\<lambda>q. int (count_list all_notes q))"
    by (rule ext) (simp add: counts_get_count_notes, simp add: counts_get_def)
  then show ?thesis by (simp add: density_def local_density_def fold_add_sum_list)
qed

lemma fold_min_lowest: "fold min ns n = lowest_note (n # ns)"
  unfolding lowest_note_def by (rule Min.set_eq_fold[symmetric])

lemma fold_max_highest: "fold max ns n = highest_note (n # ns)"
  unfolding highest_note_def by (rule Max.set_eq_fold[symmetric])

lemma search_from_some:
  assumes "sorted_wrt (<) cs" "\<forall>q\<in>set cs. b < q"
  shows "\<exists>p. search nc cs (b, Some (density nc b)) = (p, Some (density nc p))
           \<and> p \<in> insert b (set cs)
           \<and> (\<forall>q\<in>insert b (set cs). density nc p \<le> density nc q)
           \<and> (\<forall>q\<in>insert b (set cs). q < p \<longrightarrow> density nc p < density nc q)"
  using assms
proof (induction cs arbitrary: b)
  case Nil
  then show ?case by simp
next
  case (Cons c cs)
  from Cons.prems have sorted: "sorted_wrt (<) cs" and above_c: "\<forall>q\<in>set cs. c < q"
    and bc: "b < c" and above_b: "\<forall>q\<in>set cs. b < q" by auto
  show ?case
  proof (cases "density nc c < density nc b")
    case True
    from Cons.IH[OF sorted above_c] obtain p where
      p: "search nc cs (c, Some (density nc c)) = (p, Some (density nc p))"
         "p \<in> insert c (set cs)"
         "\<forall>q\<in>insert c (set cs). density nc p \<le> density nc q"
         "\<forall>q\<in>insert c (set cs). q < p \<longrightarrow> density nc p < density nc q" by blast
    from p(3) True have lt: "density nc p < density nc b" by force
    have run: "search nc (c # cs) (b, Some (density nc b)) = (p, Some (density nc p))"
      using True p(1) by simp
    from p(2) have mem: "p \<in> insert b (set (c # cs))" by auto
    from p(3) lt have le: "\<forall>q\<in>insert b (set (c # cs)). density nc p \<le> density nc q"
      by auto
    from p(4) lt have strict:
      "\<forall>q\<in>insert b (set (c # cs)). q < p \<longrightarrow> density nc p < density nc q" by auto
    from run mem le strict show ?thesis by blast
  next
    case False
    from Cons.IH[OF sorted above_b] obtain p where
      p: "search nc cs (b, Some (density nc b)) = (p, Some (density nc p))"
         "p \<in> insert b (set cs)"
         "\<forall>q\<in>insert b (set cs). density nc p \<le> density nc q"
         "\<forall>q\<in>insert b (set cs). q < p \<longrightarrow> density nc p < density nc q" by blast
    from p(3) have pb: "density nc p \<le> density nc b" by simp
    have run: "search nc (c # cs) (b, Some (density nc b)) = (p, Some (density nc p))"
      using False p(1) by simp
    from p(2) have mem: "p \<in> insert b (set (c # cs))" by auto
    from p(3) pb False have le: "\<forall>q\<in>insert b (set (c # cs)). density nc p \<le> density nc q"
      by auto
    have "c < p \<longrightarrow> density nc p < density nc c"
    proof
      assume "c < p"
      with bc have "b < p" by simp
      with p(4) have "density nc p < density nc b" by simp
      with False show "density nc p < density nc c" by simp
    qed
    with p(4) have strict:
      "\<forall>q\<in>insert b (set (c # cs)). q < p \<longrightarrow> density nc p < density nc q" by auto
    from run mem le strict show ?thesis by blast
  qed
qed

lemma sorted_wrt_upto: "sorted_wrt (<) [i..j]"
  by (simp add: sorted_wrt_iff_nth_less)

lemma search_range:
  assumes "lo \<le> hi"
  shows "\<exists>p. fst (search nc [lo..hi] (b0, None)) = p \<and> lo \<le> p \<and> p \<le> hi
           \<and> (\<forall>q. lo \<le> q \<and> q \<le> hi \<longrightarrow> density nc p \<le> density nc q)
           \<and> (\<forall>q. lo \<le> q \<and> q < p \<longrightarrow> density nc p < density nc q)"
proof -
  from assms have up: "[lo..hi] = lo # [lo + 1..hi]" by (simp add: upto_rec1)
  have "\<forall>q\<in>set [lo + 1..hi]. lo < q" by simp
  from search_from_some[OF sorted_wrt_upto this, of nc] obtain p where
    p: "search nc [lo + 1..hi] (lo, Some (density nc lo)) = (p, Some (density nc p))"
       "p \<in> insert lo (set [lo + 1..hi])"
       "\<forall>q\<in>insert lo (set [lo + 1..hi]). density nc p \<le> density nc q"
       "\<forall>q\<in>insert lo (set [lo + 1..hi]). q < p \<longrightarrow> density nc p < density nc q" by blast
  have s: "insert lo (set [lo + 1..hi]) = {lo..hi}" using assms by auto
  have run: "fst (search nc [lo..hi] (b0, None)) = p" by (simp add: up p(1))
  from p(2) s have "lo \<le> p" "p \<le> hi" by auto
  moreover from p(3) s have "\<forall>q. lo \<le> q \<and> q \<le> hi \<longrightarrow> density nc p \<le> density nc q"
    by auto
  moreover from p(4) s \<open>p \<le> hi\<close>
  have "\<forall>q. lo \<le> q \<and> q < p \<longrightarrow> density nc p < density nc q" by auto
  ultimately show ?thesis using run by blast
qed

lemma split_unfold:
  "calculate_optimal_split (n # ns) =
     fst (search (count_notes (n # ns) Map.empty)
            [max 48 (lowest_note (n # ns)) .. min 72 (highest_note (n # ns))] (60, None))"
  by (simp add: calculate_optimal_split_def Let_def fold_min_lowest fold_max_highest)

lemma lowest_le_highest: "all_notes \<noteq> [] \<Longrightarrow> lowest_note all_notes \<le> highest_note all_notes"
  by (simp add: lowest_note_def highest_note_def)

text \<open>
  Claim C8. For a non-empty list of pitches whose candidate range, from the larger of 48
  and the lowest pitch to the smaller of 72 and the highest pitch, is not empty, the
  heuristic returns a candidate of that range whose local density is the least of the
  range, and every lower candidate has a strictly greater density: of the candidates of
  least density it is the lowest.
\<close>

theorem split_is_first_sparsest:
  assumes "all_notes \<noteq> []"
      and "max 48 (lowest_note all_notes) \<le> min 72 (highest_note all_notes)"
  shows "max 48 (lowest_note all_notes) \<le> calculate_optimal_split all_notes
       \<and> calculate_optimal_split all_notes \<le> min 72 (highest_note all_notes)
       \<and> (\<forall>q. max 48 (lowest_note all_notes) \<le> q \<and> q \<le> min 72 (highest_note all_notes)
             \<longrightarrow> local_density all_notes (calculate_optimal_split all_notes)
                   \<le> local_density all_notes q)
       \<and> (\<forall>q. max 48 (lowest_note all_notes) \<le> q \<and> q < calculate_optimal_split all_notes
             \<longrightarrow> local_density all_notes (calculate_optimal_split all_notes)
                   < local_density all_notes q)"
proof -
  from assms(1) obtain n ns where ns: "all_notes = n # ns" by (cases all_notes) auto
  from search_range[OF assms(2), of "count_notes all_notes Map.empty" 60]
  show ?thesis
    unfolding ns split_unfold density_local_density by simp
qed

theorem split_is_first_sparsest_witness:
  "[50, 50, 55, 70] \<noteq> ([] :: int list)
   \<and> max 48 (lowest_note [50, 50, 55, 70]) \<le> min 72 (highest_note [50, 50, 55, 70])
   \<and> calculate_optimal_split [50, 50, 55, 70] = 58
   \<and> local_density [50, 50, 55, 70] 58 \<le> local_density [50, 50, 55, 70] 60
   \<and> local_density [50, 50, 55, 70] 58 < local_density [50, 50, 55, 70] 57"
proof -
  have h1: "[50, 50, 55, 70] \<noteq> ([] :: int list)" by simp
  have h2: "max 48 (lowest_note [50, 50, 55, 70]) \<le> min 72 (highest_note [50, 50, 55, 70])"
    by (simp add: lowest_note_def highest_note_def)
  have v: "calculate_optimal_split [50, 50, 55, 70] = 58" by code_simp
  have lo: "max 48 (lowest_note [50, 50, 55, 70]) = 50"
    and hi: "min 72 (highest_note [50, 50, 55, 70]) = 70"
    by (simp_all add: lowest_note_def highest_note_def)
  from split_is_first_sparsest[OF h1 h2] show ?thesis
    unfolding v lo hi using h1 by simp
qed

text \<open>
  Claim C5, as amended. For the empty list the heuristic returns 60. For a non-empty list
  with a pitch range that meets the window (the highest pitch is 48 or more and the lowest
  is 72 or less) it returns a value that lies both in \<open>48..72\<close> and between the lowest and
  the highest pitch. For a non-empty list with all pitches below 48, or all above 72, it
  returns 60, which is then outside the range of the pitches.
\<close>

theorem split_in_window:
  "calculate_optimal_split [] = 60
   \<and> (all_notes \<noteq> [] \<and> 48 \<le> highest_note all_notes \<and> lowest_note all_notes \<le> 72
      \<longrightarrow> 48 \<le> calculate_optimal_split all_notes
          \<and> calculate_optimal_split all_notes \<le> 72
          \<and> lowest_note all_notes \<le> calculate_optimal_split all_notes
          \<and> calculate_optimal_split all_notes \<le> highest_note all_notes)
   \<and> (all_notes \<noteq> [] \<and> (highest_note all_notes < 48 \<or> 72 < lowest_note all_notes)
      \<longrightarrow> calculate_optimal_split all_notes = 60)"
proof -
  have a: "calculate_optimal_split [] = 60" by (simp add: calculate_optimal_split_def)
  have b: "48 \<le> calculate_optimal_split all_notes
          \<and> calculate_optimal_split all_notes \<le> 72
          \<and> lowest_note all_notes \<le> calculate_optimal_split all_notes
          \<and> calculate_optimal_split all_notes \<le> highest_note all_notes"
    if h: "all_notes \<noteq> [] \<and> 48 \<le> highest_note all_notes \<and> lowest_note all_notes \<le> 72"
  proof -
    from h obtain n ns where ns: "all_notes = n # ns" by (cases all_notes) auto
    from h lowest_le_highest[of all_notes]
    have r: "max 48 (lowest_note all_notes) \<le> min 72 (highest_note all_notes)" by simp
    from search_range[OF r, of "count_notes all_notes Map.empty" 60]
    have "max 48 (lowest_note all_notes) \<le> calculate_optimal_split all_notes
        \<and> calculate_optimal_split all_notes \<le> min 72 (highest_note all_notes)"
      unfolding ns split_unfold by simp
    then show ?thesis by simp
  qed
  have c: "calculate_optimal_split all_notes = 60"
    if h: "all_notes \<noteq> [] \<and> (highest_note all_notes < 48 \<or> 72 < lowest_note all_notes)"
  proof -
    from h obtain n ns where ns: "all_notes = n # ns" by (cases all_notes) auto
    from h lowest_le_highest[of all_notes]
    have "min 72 (highest_note all_notes) < max 48 (lowest_note all_notes)" by auto
    then have "[max 48 (lowest_note all_notes) .. min 72 (highest_note all_notes)] = []"
      by simp
    then show ?thesis unfolding ns split_unfold by simp
  qed
  from a b c show ?thesis by blast
qed

theorem split_in_window_witness:
  "calculate_optimal_split [] = 60
   \<and> [50, 50, 55, 70] \<noteq> ([] :: int list)
   \<and> 48 \<le> highest_note [50, 50, 55, 70] \<and> lowest_note [50, 50, 55, 70] \<le> 72
   \<and> 48 \<le> calculate_optimal_split [50, 50, 55, 70]
   \<and> calculate_optimal_split [50, 50, 55, 70] \<le> 72
   \<and> lowest_note [50, 50, 55, 70] \<le> calculate_optimal_split [50, 50, 55, 70]
   \<and> calculate_optimal_split [50, 50, 55, 70] \<le> highest_note [50, 50, 55, 70]
   \<and> highest_note [30] < 48
   \<and> calculate_optimal_split [30] = 60"
proof -
  have a: "[50, 50, 55, 70] \<noteq> ([] :: int list) \<and> 48 \<le> highest_note [50, 50, 55, 70]
      \<and> lowest_note [50, 50, 55, 70] \<le> 72"
    by (simp add: lowest_note_def highest_note_def)
  have b: "[30] \<noteq> ([] :: int list) \<and> (highest_note [30] < 48 \<or> 72 < lowest_note [30])"
    by (simp add: lowest_note_def highest_note_def)
  from a b split_in_window[of "[50, 50, 55, 70]"] split_in_window[of "[30]"]
  show ?thesis by (simp add: highest_note_def)
qed

theorem split_outside_pitch_range:
  "[30] \<noteq> ([] :: int list)
   \<and> calculate_optimal_split [30] = 60
   \<and> highest_note [30] = 30
   \<and> \<not> (lowest_note [30] \<le> calculate_optimal_split [30]
        \<and> calculate_optimal_split [30] \<le> highest_note [30])"
  by (simp add: calculate_optimal_split_def lowest_note_def highest_note_def)

subsection \<open>The analysis of the tracks\<close>

lemma analyze_msg_fold:
  assumes "fold analyze_msg track ((a, ns), h) = ((a', ns'), h')"
  shows "channels_used a' = channels_used a \<union> m_channel ` set (sounding [track])
       \<and> dist_low a' = dist_low a + int (length (filter (\<lambda>m. m_note m < 60) (sounding [track])))
       \<and> dist_high a' = dist_high a + int (length (filter (\<lambda>m. 60 \<le> m_note m) (sounding [track])))
       \<and> ns' = ns @ map m_note (sounding [track])
       \<and> needs_separation a' = needs_separation a \<and> split_point a' = split_point a"
  using assms
proof (induction track arbitrary: a ns h)
  case Nil
  then show ?case by (simp add: sounding_def)
next
  case (Cons msg track)
  obtain a1 ns1 h1 where step: "analyze_msg msg ((a, ns), h) = ((a1, ns1), h1)"
    by (metis surj_pair)
  with Cons.prems have "fold analyze_msg track ((a1, ns1), h1) = ((a', ns'), h')" by simp
  note ih = Cons.IH[OF this]
  show ?case
  proof (cases "m_type msg = ''note_on'' \<and> m_velocity msg > 0")
    case True
    with step have "ns1 = ns @ [m_note msg]"
      "channels_used a1 = insert (m_channel msg) (channels_used a)"
      "dist_low a1 = dist_low a + (if m_note msg < 60 then 1 else 0)"
      "dist_high a1 = dist_high a + (if m_note msg < 60 then 0 else 1)"
      "needs_separation a1 = needs_separation a" "split_point a1 = split_point a"
      by (auto simp: analyze_msg_def split: if_splits)
    with ih True show ?thesis by (auto simp: sounding_def)
  next
    case False
    with step have "a1 = a" "ns1 = ns" by (auto simp: analyze_msg_def)
    with ih False show ?thesis by (auto simp: sounding_def)
  qed
qed

lemma analyze_track_effect:
  assumes "analyze_track track (a, ns) = (a', ns')"
  shows "channels_used a' = channels_used a \<union> m_channel ` set (sounding [track])
       \<and> dist_low a' = dist_low a + int (length (filter (\<lambda>m. m_note m < 60) (sounding [track])))
       \<and> dist_high a' = dist_high a + int (length (filter (\<lambda>m. 60 \<le> m_note m) (sounding [track])))
       \<and> ns' = ns @ map m_note (sounding [track])
       \<and> needs_separation a' = needs_separation a \<and> split_point a' = split_point a"
proof -
  obtain a1 ns1 h1 where f: "fold analyze_msg track ((a, ns), False) = ((a1, ns1), h1)"
    by (metis surj_pair)
  from assms f have "a' = (if h1 then a1\<lparr>musical_tracks := musical_tracks a1 + 1\<rparr> else a1)"
    "ns' = ns1" by (simp_all add: analyze_track_def)
  with analyze_msg_fold[OF f] show ?thesis by simp
qed

lemma analyze_tracks_fold:
  assumes "fold analyze_track tracks (a, ns) = (a', ns')"
  shows "channels_used a' = channels_used a \<union> m_channel ` set (sounding tracks)
       \<and> dist_low a' = dist_low a + int (length (filter (\<lambda>m. m_note m < 60) (sounding tracks)))
       \<and> dist_high a' = dist_high a + int (length (filter (\<lambda>m. 60 \<le> m_note m) (sounding tracks)))
       \<and> ns' = ns @ map m_note (sounding tracks)
       \<and> needs_separation a' = needs_separation a \<and> split_point a' = split_point a"
  using assms
proof (induction tracks arbitrary: a ns)
  case Nil
  then show ?case by (simp add: sounding_def)
next
  case (Cons track tracks)
  obtain a1 ns1 where step: "analyze_track track (a, ns) = (a1, ns1)" by (metis surj_pair)
  with Cons.prems have "fold analyze_track tracks (a1, ns1) = (a', ns')" by simp
  from Cons.IH[OF this] analyze_track_effect[OF step] show ?case
    by (auto simp: sounding_def)
qed

lemma analysis_totals:
  assumes "fold analyze_track tracks (initial_analysis tracks, []) = (a, ns)"
  shows "channels_used a = m_channel ` set (sounding tracks)"
    and "dist_low a = int (length (filter (\<lambda>m. m_note m < 60) (sounding tracks)))"
    and "dist_high a = int (length (filter (\<lambda>m. 60 \<le> m_note m) (sounding tracks)))"
    and "ns = map m_note (sounding tracks)"
    and "\<not> needs_separation a" and "split_point a = 60"
  using analyze_tracks_fold[OF assms] by (simp_all add: initial_analysis_def)

text \<open>
  Claim C7. The analysis sets \<^verbatim>\<open>needs_separation\<close> exactly when the sounding notes of
  the file (the \<^verbatim>\<open>note_on\<close> messages with a velocity above 0) use at most one channel,
  more than 5 of them have a pitch below 60 and more than 5 a pitch of 60 or more. The
  split point is computed by the heuristic only in that case and stays at its default 60
  otherwise; in particular, with two or more channels the flag is not set and the
  heuristic is not run.
\<close>

theorem needs_separation_iff:
  "needs_separation (analyze_track_structure tracks) =
     (card (m_channel ` set (sounding tracks)) \<le> 1
      \<and> 5 < length (filter (\<lambda>m. m_note m < 60) (sounding tracks))
      \<and> 5 < length (filter (\<lambda>m. 60 \<le> m_note m) (sounding tracks)))
   \<and> split_point (analyze_track_structure tracks) =
     (if needs_separation (analyze_track_structure tracks)
      then calculate_optimal_split (map m_note (sounding tracks)) else 60)
   \<and> (2 \<le> card (m_channel ` set (sounding tracks)) \<longrightarrow>
        \<not> needs_separation (analyze_track_structure tracks)
        \<and> split_point (analyze_track_structure tracks) = 60)"
proof -
  obtain a ns where f: "fold analyze_track tracks (initial_analysis tracks, []) = (a, ns)"
    by (metis surj_pair)
  note t = analysis_totals[OF f]
  show ?thesis
    by (simp add: analyze_track_structure_def f t)
qed

theorem needs_separation_iff_witness:
  "2 \<le> card (m_channel ` set (sounding [[on_msg 0 40, on_msg 1 70]]))
   \<and> \<not> needs_separation (analyze_track_structure [[on_msg 0 40, on_msg 1 70]])
   \<and> split_point (analyze_track_structure [[on_msg 0 40, on_msg 1 70]]) = 60
   \<and> needs_separation (analyze_track_structure
        [map (on_msg 0) [40, 42, 43, 45, 47, 48, 50, 52],
         map (on_msg 0) [68, 70, 72, 73, 75, 77, 79, 80]])"
proof -
  have "sounding [[on_msg 0 40, on_msg 1 70]] = [on_msg 0 40, on_msg 1 70]"
    by (simp add: sounding_def on_msg_def)
  then have h: "2 \<le> card (m_channel ` set (sounding [[on_msg 0 40, on_msg 1 70]]))"
    by (simp add: on_msg_def)
  have one: "needs_separation (analyze_track_structure
        [map (on_msg 0) [40, 42, 43, 45, 47, 48, 50, 52],
         map (on_msg 0) [68, 70, 72, 73, 75, 77, 79, 80]])"
    using needs_separation_iff[of "[map (on_msg 0) [40, 42, 43, 45, 47, 48, 50, 52],
         map (on_msg 0) [68, 70, 72, 73, 75, 77, 79, 80]]"]
    by (simp add: sounding_def on_msg_def)
  from needs_separation_iff[of "[[on_msg 0 40, on_msg 1 70]]"] h one show ?thesis by blast
qed

subsection \<open>The track assembler\<close>

lemma running_sums_append:
  "running_sums a (xs @ ys) = running_sums a xs @ running_sums (a + sum_list xs) ys"
  by (induction xs arbitrary: a) (auto simp: add.assoc)

lemma running_sums_deltas: "running_sums a (deltas a ts) = ts"
  by (induction ts arbitrary: a) auto

lemma sum_list_deltas: "sum_list (deltas a ts) = last (a # ts) - a"
  by (induction ts arbitrary: a) auto

lemma emit_fold:
  assumes "fold emit_event evs (rt, lt, lr, ll) = (rt', lt', lr', ll')"
  shows "map m_time rt' =
           map m_time rt @ deltas lr (map ev_tick (filter (\<lambda>e. ev_channel e = 0) evs))
       \<and> map m_time lt' =
           map m_time lt @ deltas ll (map ev_tick (filter (\<lambda>e. ev_channel e \<noteq> 0) evs))"
  using assms
proof (induction evs arbitrary: rt lt lr ll)
  case Nil
  then show ?case by simp
next
  case (Cons ev evs)
  obtain rt1 lt1 lr1 ll1 where
    step: "emit_event ev (rt, lt, lr, ll) = (rt1, lt1, lr1, ll1)"
    by (metis surj_pair)
  with Cons.prems have "fold emit_event evs (rt1, lt1, lr1, ll1) = (rt', lt', lr', ll')"
    by simp
  note ih = Cons.IH[OF this]
  have "map m_time rt1 = map m_time rt @ (if ev_channel ev = 0 then [ev_tick ev - lr] else [])
      \<and> map m_time lt1 = map m_time lt @ (if ev_channel ev = 0 then [] else [ev_tick ev - ll])
      \<and> lr1 = (if ev_channel ev = 0 then ev_tick ev else lr)
      \<and> ll1 = (if ev_channel ev = 0 then ll else ev_tick ev)"
    using step by (auto simp: emit_event_def Let_def note_message_def split: if_splits)
  with ih show ?case by auto
qed

lemma separate_fold:
  assumes "fold (separate_event sp) evs (rt, lt, rl, ll) = (rt', lt', rl', ll')"
  shows "map m_time rt' = map m_time rt @ deltas rl (map fst (filter (to_right sp) evs))
       \<and> map m_time lt' = map m_time lt @ deltas ll (map fst (filter (to_left sp) evs))"
  using assms
proof (induction evs arbitrary: rt lt rl ll)
  case Nil
  then show ?case by simp
next
  case (Cons ev evs)
  obtain t msg where ev: "ev = (t, msg)" by (cases ev)
  obtain rt1 lt1 rl1 ll1 where
    step: "separate_event sp (t, msg) (rt, lt, rl, ll) = (rt1, lt1, rl1, ll1)"
    by (metis surj_pair)
  with Cons.prems ev have "fold (separate_event sp) evs (rt1, lt1, rl1, ll1) = (rt', lt', rl', ll')"
    by simp
  note ih = Cons.IH[OF this]
  have "map m_time rt1 = map m_time rt @ deltas rl (map fst (filter (to_right sp) [ev]))
      \<and> map m_time lt1 = map m_time lt @ deltas ll (map fst (filter (to_left sp) [ev]))
      \<and> rl1 = (if to_right sp ev then t else rl) \<and> ll1 = (if to_left sp ev then t else ll)"
    using step unfolding ev
    by (auto simp: separate_event_def to_right_def to_left_def split: if_splits)
  with ih ev show ?case by auto
qed

lemma filter_merged_right:
  "filter (\<lambda>e. ev_channel e = 0) (merged_events R L) = sort_key ev_tick (map (with_channel 0) R)"
  by (simp add: merged_events_def filter_sort filter_map with_channel_def o_def)

lemma filter_merged_left:
  "filter (\<lambda>e. ev_channel e \<noteq> 0) (merged_events R L) = sort_key ev_tick (map (with_channel 1) L)"
  by (simp add: merged_events_def filter_sort filter_map with_channel_def o_def)

lemma map_insort_key_own: "map f (insort_key f x xs) = insort (f x) (map f xs)"
  by (induction xs) auto

lemma ticks_sort_key: "map f (sort_key f xs) = sort (map f xs)"
  by (induction xs) (auto simp: map_insort_key_own)

lemma ticks_sorted_channel:
  "map ev_tick (sort_key ev_tick (map (with_channel c) es)) = sort (map ev_tick es)"
  by (simp add: ticks_sort_key o_def with_channel_def)

lemma header3: "map m_time [track_name a, key_signature k, program_change c] = [0, 0, 0]"
  by (simp add: track_name_def key_signature_def program_change_def)

lemma header2: "map m_time [track_name a, program_change c] = [0, 0]"
  by (simp add: track_name_def program_change_def)

lemma assemble_times:
  "map m_time (fst (assemble_tracks key R L)) =
     [0, 0, 0] @ deltas 0 (sort (map ev_tick R))
   \<and> map m_time (snd (assemble_tracks key R L)) =
     [0, 0, 0] @ deltas 0 (sort (map ev_tick L))"
proof -
  obtain rt lt lr ll where
    f: "fold emit_event (merged_events R L)
          ([track_name ''Mano Derecha'', key_signature key, program_change 0],
           [track_name ''Mano Izquierda'', key_signature key, program_change 1], 0, 0)
        = (rt, lt, lr, ll)" by (metis surj_pair)
  from emit_fold[OF f] have
    "map m_time rt = [0, 0, 0] @ deltas 0 (sort (map ev_tick R))"
    "map m_time lt = [0, 0, 0] @ deltas 0 (sort (map ev_tick L))"
    by (simp_all only: header3 filter_merged_right filter_merged_left ticks_sorted_channel)
  then show ?thesis by (simp add: assemble_tracks_def f)
qed

lemma separated_times:
  "map m_time (fst (create_separated_midi tracks sp)) =
     [0, 0] @ deltas 0 (map fst (filter (to_right sp) (combined_events tracks)))
   \<and> map m_time (snd (create_separated_midi tracks sp)) =
     [0, 0] @ deltas 0 (map fst (filter (to_left sp) (combined_events tracks)))"
proof -
  obtain rt lt rl ll where
    f: "fold (separate_event sp) (combined_events tracks)
          ([track_name ''Mano Derecha'', program_change 0],
           [track_name ''Mano Izquierda'', program_change 1], 0, 0)
        = (rt, lt, rl, ll)" by (metis surj_pair)
  from separate_fold[OF f] have
    "map m_time rt = [0, 0] @ deltas 0 (map fst (filter (to_right sp) (combined_events tracks)))"
    "map m_time lt = [0, 0] @ deltas 0 (map fst (filter (to_left sp) (combined_events tracks)))"
    by (simp_all only: header2)
  then show ?thesis by (simp add: create_separated_midi_def f)
qed

lemma abs_ticks_header:
  assumes "map m_time track = replicate n 0 @ deltas 0 ts"
  shows "abs_ticks track = replicate n 0 @ ts"
proof -
  have r: "running_sums 0 (replicate n 0) = replicate n 0"
    by (induction n) auto
  have z: "sum_list (replicate n (0::int)) = 0"
    by (induction n) auto
  show ?thesis
    by (simp add: abs_ticks_def assms running_sums_append running_sums_deltas r z)
qed

text \<open>
  Claim C3. In each of the two hand tracks that either assembler builds, the delta time of
  every message is its tick minus the tick of the message emitted before it on the same
  track (0 for the first), so that the sum of the delta times up to a message is the
  absolute tick of its event. For the tracks built from two staves, the ticks of a hand's
  track are the sorted ticks of that hand's own events, whatever the other hand plays;
  for the tracks split from one file, they are the times of the events of the merged
  stream that go to that hand. The leading name, key and program messages are at delta 0.
\<close>

theorem per_channel_cursors:
  "map m_time (fst (assemble_tracks key R L)) = [0, 0, 0] @ deltas 0 (sort (map ev_tick R))
   \<and> map m_time (snd (assemble_tracks key R L)) = [0, 0, 0] @ deltas 0 (sort (map ev_tick L))
   \<and> abs_ticks (fst (assemble_tracks key R L)) = [0, 0, 0] @ sort (map ev_tick R)
   \<and> abs_ticks (snd (assemble_tracks key R L)) = [0, 0, 0] @ sort (map ev_tick L)
   \<and> sort (map ev_tick R)
       = map ev_tick (filter (\<lambda>e. ev_channel e = 0) (merged_events R L))
   \<and> sort (map ev_tick L)
       = map ev_tick (filter (\<lambda>e. ev_channel e \<noteq> 0) (merged_events R L))
   \<and> map m_time (fst (create_separated_midi tracks sp)) =
       [0, 0] @ deltas 0 (map fst (filter (to_right sp) (combined_events tracks)))
   \<and> map m_time (snd (create_separated_midi tracks sp)) =
       [0, 0] @ deltas 0 (map fst (filter (to_left sp) (combined_events tracks)))
   \<and> abs_ticks (fst (create_separated_midi tracks sp)) =
       [0, 0] @ map fst (filter (to_right sp) (combined_events tracks))
   \<and> abs_ticks (snd (create_separated_midi tracks sp)) =
       [0, 0] @ map fst (filter (to_left sp) (combined_events tracks))"
proof -
  note a = assemble_times[of key R L]
  note s = separated_times[of tracks sp]
  have a1: "abs_ticks (fst (assemble_tracks key R L)) = [0, 0, 0] @ sort (map ev_tick R)"
    using abs_ticks_header[of "fst (assemble_tracks key R L)" 3 "sort (map ev_tick R)"] a
    by (simp add: numeral_3_eq_3)
  have a2: "abs_ticks (snd (assemble_tracks key R L)) = [0, 0, 0] @ sort (map ev_tick L)"
    using abs_ticks_header[of "snd (assemble_tracks key R L)" 3 "sort (map ev_tick L)"] a
    by (simp add: numeral_3_eq_3)
  have s1: "abs_ticks (fst (create_separated_midi tracks sp)) =
       [0, 0] @ map fst (filter (to_right sp) (combined_events tracks))"
    using abs_ticks_header[of "fst (create_separated_midi tracks sp)" 2
        "map fst (filter (to_right sp) (combined_events tracks))"] s
    by (simp add: numeral_2_eq_2)
  have s2: "abs_ticks (snd (create_separated_midi tracks sp)) =
       [0, 0] @ map fst (filter (to_left sp) (combined_events tracks))"
    using abs_ticks_header[of "snd (create_separated_midi tracks sp)" 2
        "map fst (filter (to_left sp) (combined_events tracks))"] s
    by (simp add: numeral_2_eq_2)
  have m1: "sort (map ev_tick R)
       = map ev_tick (filter (\<lambda>e. ev_channel e = 0) (merged_events R L))"
    by (simp only: filter_merged_right ticks_sorted_channel)
  have m2: "sort (map ev_tick L)
       = map ev_tick (filter (\<lambda>e. ev_channel e \<noteq> 0) (merged_events R L))"
    by (simp only: filter_merged_left ticks_sorted_channel)
  from a s a1 a2 s1 s2 m1 m2 show ?thesis by blast
qed

theorem per_channel_cursors_witness:
  "map m_time (fst (assemble_tracks ''C'' [note_on 480 72, note_on 960 74] [note_on 960 48]))
     = [0, 0, 0, 480, 480]
   \<and> map m_time (snd (assemble_tracks ''C'' [note_on 480 72, note_on 960 74] [note_on 960 48]))
     = [0, 0, 0, 960]
   \<and> abs_ticks (fst (assemble_tracks ''C'' [note_on 480 72, note_on 960 74] [note_on 960 48]))
     = [0, 0, 0, 480, 960]
   \<and> abs_ticks (snd (assemble_tracks ''C'' [note_on 480 72, note_on 960 74] [note_on 960 48]))
     = [0, 0, 0, 960]"
  using per_channel_cursors[of "''C''" "[note_on 480 72, note_on 960 74]" "[note_on 960 48]"]
  by (simp add: note_on_def)


subsection \<open>Fewer than two sources\<close>

text \<open>
  Claim C6, as amended. A score with fewer than two staves makes
  \<^verbatim>\<open>DirectXMLtoMIDIConverter.convert\<close> save no file; the call returns False, unless
  the division text is no integer: then \<^verbatim>\<open>int\<close> raises ValueError at line 130, before
  the staves are counted, and the call raises it. A rendered MIDI file with fewer than two
  tracks that hold a note message makes \<^verbatim>\<open>YamahaCSPConverter.convert\<close> return False
  and save no file.
\<close>

theorem too_few_sources_fail:
  "(length (root_staves root) < 2 \<longrightarrow>
      direct_xml_convert (Some root)
        = (if division_raises root then Inl ValueError else Inr False, None))
   \<and> (length (note_tracks_of (mf_tracks mid)) < 2 \<longrightarrow>
      yamaha_csp_convert copy_msg rendered (Some mid) = (False, None))"
proof -
  have a: "direct_xml_convert (Some root)
        = (if division_raises root then Inl ValueError else Inr False, None)"
    if "length (root_staves root) < 2"
    using that
    by (auto simp: direct_xml_convert_def division_raises_def Let_def
        split: option.splits node_text.splits)
  have c: "yamaha_csp_convert copy_msg rendered (Some mid) = (False, None)"
    if "length (note_tracks_of (mf_tracks mid)) < 2"
    using that by (simp add: yamaha_csp_convert_def Let_def)
  from a c show ?thesis by blast
qed

theorem too_few_sources_fail_witness:
  "length (root_staves one_staff_score) < 2
   \<and> direct_xml_convert (Some one_staff_score) = (Inr False, None)
   \<and> length (root_staves (one_staff_score\<lparr>root_staves := []\<rparr>)) < 2
   \<and> direct_xml_convert (Some (one_staff_score\<lparr>root_staves := []\<rparr>)) = (Inr False, None)
   \<and> length (note_tracks_of (mf_tracks one_note_track_file)) < 2
   \<and> yamaha_csp_convert (\<lambda>msg c. Some (msg\<lparr>m_channel := c\<rparr>)) True (Some one_note_track_file)
       = (False, None)"
proof -
  have a: "length (root_staves one_staff_score) < 2 \<and> \<not> division_raises one_staff_score"
    by (simp add: one_staff_score_def division_raises_def)
  have b: "length (root_staves (one_staff_score\<lparr>root_staves := []\<rparr>)) < 2
      \<and> \<not> division_raises (one_staff_score\<lparr>root_staves := []\<rparr>)"
    by (simp add: one_staff_score_def division_raises_def)
  have c: "length (note_tracks_of (mf_tracks one_note_track_file)) < 2"
    by (simp add: one_note_track_file_def note_tracks_of_def track_name_def on_msg_def)
  from a b c
    too_few_sources_fail[of one_staff_score one_note_track_file]
    too_few_sources_fail[of "one_staff_score\<lparr>root_staves := []\<rparr>" one_note_track_file
      "\<lambda>msg c. Some (msg\<lparr>m_channel := c\<rparr>)" True]
  show ?thesis by simp
qed

theorem one_staff_bad_division_raises:
  "length (root_staves (one_staff_score\<lparr>root_division := Some OtherText\<rparr>)) < 2
   \<and> direct_xml_convert (Some (one_staff_score\<lparr>root_division := Some OtherText\<rparr>))
       = (Inl ValueError, None)
   \<and> fst (direct_xml_convert (Some (one_staff_score\<lparr>root_division := Some OtherText\<rparr>)))
       \<noteq> Inr False"
  by (simp add: direct_xml_convert_def one_staff_score_def)

end
